theory Spec2Isabelle
  imports Main "HOL-Library.Multiset"
begin

section \<open>Errors and effectful computations\<close>

text \<open>
  A thrown JavaScript value. \<open>Error m\<close> is an \<open>Error\<close> object with message \<open>m\<close>;
  \<open>ReferenceError x\<close> is what the runtime throws when the identifier \<open>x\<close> is read
  where no binding of it is in scope.
\<close>

datatype error = Error string | ReferenceError string

fun err_message :: "error \<Rightarrow> string" where
  "err_message (Error m) = m"
| "err_message (ReferenceError x) = x @ '' is not defined''"

text \<open>
  An \<open>async\<close> function acting on a state \<open>'s\<close>: it either rejects (\<open>Inl\<close>) or
  resolves with a value (\<open>Inr\<close>), and leaves a new state. The awaits inside one call
  are not interleaved with those of other calls.
\<close>

type_synonym ('a, 's) async = "'s \<Rightarrow> (error + 'a) \<times> 's"

definition resolve :: "'a \<Rightarrow> ('a, 's) async" where
  "resolve x s = (Inr x, s)"

definition await :: "('a, 's) async \<Rightarrow> ('a \<Rightarrow> ('b, 's) async) \<Rightarrow> ('b, 's) async" where
  "await m f s = (case m s of (Inl e, s') \<Rightarrow> (Inl e, s') | (Inr x, s') \<Rightarrow> f x s')"

text \<open>
  \<open>await Promise.all([a, b])\<close>: both calls are started, so both take their effect
  whether or not the other one rejects; the result is the pair of values when both
  resolve, and a rejection otherwise (of the first in array order, when both reject).
\<close>

definition promise_all :: "('a, 's) async \<Rightarrow> ('b, 's) async \<Rightarrow> ('a \<times> 'b, 's) async" where
  "promise_all a b s =
     (case a s of (ra, s1) \<Rightarrow>
      case b s1 of (rb, s2) \<Rightarrow>
        (case ra of
           Inl e \<Rightarrow> (Inl e, s2)
         | Inr x \<Rightarrow> (case rb of Inl e \<Rightarrow> (Inl e, s2) | Inr y \<Rightarrow> (Inr (x, y), s2))))"

section \<open>botConfig\<close>

definition contextMessageLimit :: nat where
  "contextMessageLimit = 10"

definition subscription_messages_expired :: string where
  "subscription_messages_expired =
     ''You'' @ [CHR 0x27] @ ''re out of plant scans. Upgrade for unlimited daily analysis!''
     @ [CHR 0xF0, CHR 0x9F, CHR 0x8C, CHR 0xB1] @ '' https://plantvisionai.com/subscribe''"

definition freeMessages :: int where
  "freeMessages = 10"

definition errors_general :: string where
  "errors_general =
     ''I apologize, but I'' @ [CHR 0x27] @ ''m having trouble processing your message right now. ''
     @ ''Please try again in a moment. '' @ [CHR 0xF0, CHR 0x9F, CHR 0x99, CHR 0x8F]"

definition errors_unsupportedType :: string where
  "errors_unsupportedType =
     ''I'' @ [CHR 0x27] @ ''m so'' @ ''rry, I can only process text, audio, and image messages at the moment. ''
     @ [CHR 0xF0, CHR 0x9F, CHR 0x99, CHR 0x8F]"

definition blockedCountries_message :: string where
  "blockedCountries_message =
     ''Hi there, we are so'' @ ''rry but this service is not available in your country.''"

definition rateLimit_threshold :: nat where
  "rateLimit_threshold = 50"

section \<open>The database (Supabase-Copy-Paste.sql) and databaseService\<close>

text \<open>
  Table \<open>users\<close>: \<open>user_id\<close> is \<open>UNIQUE\<close>, so the table is a map from \<open>user_id\<close> to the
  row; \<open>message_count\<close> is an \<open>INTEGER\<close> (32 bits, signed). Table \<open>messages\<close> is
  append-only, in insertion order; \<open>created_at\<close> defaults to the time of the inserting
  statement, so the rows of one \<open>INSERT\<close> carry the same value.
\<close>

record user_row =
  user_id :: string
  message_count :: int
  is_subscribed :: bool

record message_row =
  row_user_id :: string
  row_role :: string
  row_content :: string
  created_at :: nat

text \<open>The columns \<open>role, content\<close> that \<open>getConversationContext\<close> selects.\<close>

record turn =
  role :: string
  content :: string

text \<open>
  The state that databaseService works on. The Supabase client (config/supabase) is not
  part of the sources: every request to it either succeeds or comes back with an error,
  and which one is the environment's choice. \<open>faults\<close> lists the outcomes of the
  upcoming requests (\<open>Some m\<close>: an error with message \<open>m\<close>; once the list is used up,
  requests succeed). Each request is a statement of its own and moves the database
  clock. \<open>extern\<close> is the state of the services outside the database (billing, AI
  provider, messenger).
\<close>

record 'e world =
  users :: "string \<rightharpoonup> user_row"
  messages :: "message_row list"
  clock :: nat
  faults :: "string option list"
  db_log :: "string list"
  extern :: 'e

definition request :: "'e world \<Rightarrow> string option \<times> 'e world" where
  "request w =
     (case faults w of
        [] \<Rightarrow> (None, w\<lparr>clock := clock w + 1\<rparr>)
      | f # fs \<Rightarrow> (f, w\<lparr>faults := fs, clock := clock w + 1\<rparr>))"

text \<open>\<open>catch (error) { logger.error(prefix + error.message); throw error; }\<close>\<close>

definition log_and_rethrow :: "string \<Rightarrow> error \<Rightarrow> 'e world \<Rightarrow> (error + 'a) \<times> 'e world" where
  "log_and_rethrow prefix e w = (Inl e, w\<lparr>db_log := db_log w @ [prefix @ err_message e]\<rparr>)"

text \<open>
  \<open>findOrCreateUser\<close>: select the row of \<open>userId\<close>; when there is none, insert
  \<open>{user_id, message_count: 0, is_subscribed: false}\<close> and return the new row (the
  caller reads its fields, so the insert is taken to answer with the row it wrote).
\<close>

definition findOrCreateUser :: "string \<Rightarrow> (user_row, 'e world) async" where
  "findOrCreateUser userId w =
     (case request w of
        (Some m, w1) \<Rightarrow> log_and_rethrow ''Error finding or creating user: '' (Error m) w1
      | (None, w1) \<Rightarrow>
          (case users w1 userId of
             Some userData \<Rightarrow> (Inr userData, w1)
           | None \<Rightarrow>
               (case request w1 of
                  (Some m, w2) \<Rightarrow> log_and_rethrow ''Error finding or creating user: '' (Error m) w2
                | (None, w2) \<Rightarrow>
                    (let newUser = \<lparr>user_id = userId, message_count = 0, is_subscribed = False\<rparr>
                     in (Inr newUser, w2\<lparr>users := (users w2)(userId \<mapsto> newUser)\<rparr>)))))"

text \<open>\<open>.update(fields).eq('user_id', userId)\<close>: changes the matching row, if any.\<close>

definition update_user :: "string \<Rightarrow> (user_row \<Rightarrow> user_row) \<Rightarrow> 'e world \<Rightarrow> 'e world" where
  "update_user userId f w =
     (case users w userId of
        None \<Rightarrow> w
      | Some r \<Rightarrow> w\<lparr>users := (users w)(userId \<mapsto> f r)\<rparr>)"

text \<open>
  \<open>incrementMessageCount\<close>: read the row through \<open>findOrCreateUser\<close>, write
  \<open>message_count + 1\<close> and return it. The column is a 32-bit \<open>INTEGER\<close>: the database
  refuses a value above 2147483647.
\<close>

definition incrementMessageCount :: "string \<Rightarrow> (int, 'e world) async" where
  "incrementMessageCount userId w =
     (case findOrCreateUser userId w of
        (Inl e, w1) \<Rightarrow> log_and_rethrow ''Error incrementing message count: '' e w1
      | (Inr user, w1) \<Rightarrow>
          (let newCount = message_count user + 1 in
           case request w1 of
             (Some m, w2) \<Rightarrow> log_and_rethrow ''Error incrementing message count: '' (Error m) w2
           | (None, w2) \<Rightarrow>
               if newCount > 2147483647
               then log_and_rethrow ''Error incrementing message count: ''
                      (Error ''integer out of range'') w2
               else (Inr newCount, update_user userId (\<lambda>r. r\<lparr>message_count := newCount\<rparr>) w2)))"

definition updateSubscription :: "string \<Rightarrow> bool \<Rightarrow> (unit, 'e world) async" where
  "updateSubscription userId isSubscribed w =
     (case request w of
        (Some m, w1) \<Rightarrow> log_and_rethrow ''Error updating subscription: '' (Error m) w1
      | (None, w1) \<Rightarrow> (Inr (), update_user userId (\<lambda>r. r\<lparr>is_subscribed := isSubscribed\<rparr>) w1))"

text \<open>
  \<open>.order('created_at', { ascending: false })\<close>: the rows by decreasing \<open>created_at\<close>.
  The database does not fix the order of rows with equal \<open>created_at\<close>; here the later
  inserted one comes first.
\<close>

definition order_created_at_desc :: "message_row list \<Rightarrow> message_row list" where
  "order_created_at_desc rows = rev (sort_key created_at rows)"

text \<open>
  The rows that the query of \<open>getConversationContext\<close> answers with, before the columns
  are projected: \<open>.eq('user_id', userId).order(...).limit(contextMessageLimit || 10)\<close>.
\<close>

definition context_rows :: "string \<Rightarrow> 'e world \<Rightarrow> message_row list" where
  "context_rows userId w =
     take (if contextMessageLimit = 0 then 10 else contextMessageLimit)
       (order_created_at_desc (filter (\<lambda>r. row_user_id r = userId) (messages w)))"

definition select_role_content :: "message_row \<Rightarrow> turn" where
  "select_role_content r = \<lparr>role = row_role r, content = row_content r\<rparr>"

definition getConversationContext :: "string \<Rightarrow> (turn list, 'e world) async" where
  "getConversationContext userId w =
     (case request w of
        (Some m, w1) \<Rightarrow> log_and_rethrow ''Error getting conversation context: '' (Error m) w1
      | (None, w1) \<Rightarrow> (Inr (rev (map select_role_content (context_rows userId w1))), w1))"

text \<open>
  \<open>saveMessage\<close>: one \<open>INSERT\<close> of two rows. \<open>messages.user_id\<close> references
  \<open>users(user_id)\<close>, so the insert is refused for a sender without a \<open>users\<close> row.
\<close>

definition saveMessage :: "string \<Rightarrow> string \<Rightarrow> string \<Rightarrow> (unit, 'e world) async" where
  "saveMessage userId userMessage aiResponse w =
     (case request w of
        (Some m, w1) \<Rightarrow> log_and_rethrow ''Error saving messages: '' (Error m) w1
      | (None, w1) \<Rightarrow>
          if users w1 userId = None
          then log_and_rethrow ''Error saving messages: ''
                 (Error ''violates foreign key constraint'') w1
          else (Inr (), w1\<lparr>messages := messages w1 @
                  [\<lparr>row_user_id = userId, row_role = ''user'', row_content = userMessage,
                     created_at = clock w1\<rparr>,
                   \<lparr>row_user_id = userId, row_role = ''assistant'', row_content = aiResponse,
                     created_at = clock w1\<rparr>]\<rparr>))"

section \<open>The per-message pipeline (queueService: processMessageDirectly)\<close>

text \<open>A prompt part: \<open>{type: "text", text}\<close> or \<open>{type: "image_url", image_url: {url}}\<close>.\<close>

datatype part = TextPart string | ImageUrlPart string

text \<open>
  The handlers that the controller passes along with every message. Each is an
  \<open>async\<close> function on the state \<open>'w\<close> of the services behind it.
\<close>

record 'w handlers =
  h_checkSubscription :: "string \<Rightarrow> (bool, 'w) async"
  h_findOrCreateUser :: "string \<Rightarrow> (user_row, 'w) async"
  h_updateSubscription :: "string \<Rightarrow> bool \<Rightarrow> (unit, 'w) async"
  h_incrementMessageCount :: "string \<Rightarrow> (int, 'w) async"
  h_getConversationContext :: "string \<Rightarrow> (turn list, 'w) async"
  h_generateAIResponse :: "part list \<Rightarrow> (string, 'w) async"
  h_sendWhatsAppMessage :: "string \<Rightarrow> string \<Rightarrow> (unit, 'w) async"
  h_saveMessage :: "string \<Rightarrow> string \<Rightarrow> string \<Rightarrow> (unit, 'w) async"

record message_body =
  messageContent :: string
  messageForAI :: "part list"

record 'w messageData =
  message :: message_body
  from_id :: string
  messageType :: string
  handlers :: "'w handlers"

datatype status = success | subscription_required

record result =
  status :: status
  result_message :: string

text \<open>
  What the program does to the outside, in the order it does it: the calls of the
  services (with their arguments) and the lines given to the logger.
\<close>

datatype event =
    CheckSubscription string
  | FindOrCreateUser string
  | UpdateSubscription string bool
  | IncrementMessageCount string
  | GetConversationContext string
  | GenerateAIResponse "part list"
  | SendWhatsAppMessage string string
  | SaveMessage string string string
  | TranscribeAudio string
  | DownloadImage string
  | LogInfo string
  | LogError string

record 'w pstate =
  wld :: 'w
  trace :: "event list"

definition call :: "event \<Rightarrow> ('a, 'w) async \<Rightarrow> ('a, 'w pstate) async" where
  "call ev h s = (case h (wld s) of (r, w') \<Rightarrow> (r, \<lparr>wld = w', trace = trace s @ [ev]\<rparr>))"

definition logger_info :: "string \<Rightarrow> 'w pstate \<Rightarrow> 'w pstate" where
  "logger_info m s = s\<lparr>trace := trace s @ [LogInfo m]\<rparr>"

definition logger_error :: "string \<Rightarrow> 'w pstate \<Rightarrow> 'w pstate" where
  "logger_error m s = s\<lparr>trace := trace s @ [LogError m]\<rparr>"

text \<open>\<open>Array.prototype.join\<close>\<close>

fun join :: "string \<Rightarrow> string list \<Rightarrow> string" where
  "join sep [] = []"
| "join sep [x] = x"
| "join sep (x # y # ys) = x @ sep @ join sep (y # ys)"

text \<open>
  The \<open>try\<close> block of \<open>processMessageDirectly\<close>. (\<open>isTester\<close> is computed there and
  never read.) The free-message bound is the literal 10 of the source.
\<close>

definition pipeline_try :: "'w messageData \<Rightarrow> (result, 'w pstate) async" where
  "pipeline_try md =
     (let h = handlers md; frm = from_id md in
      await (promise_all (call (CheckSubscription frm) (h_checkSubscription h frm))
                         (call (FindOrCreateUser frm) (h_findOrCreateUser h frm)))
       (\<lambda>(isSubscribed, user).
      await (if isSubscribed \<noteq> is_subscribed user
             then call (UpdateSubscription frm isSubscribed)
                    (h_updateSubscription h frm isSubscribed)
             else resolve ())
       (\<lambda>_.
      await (call (IncrementMessageCount frm) (h_incrementMessageCount h frm))
       (\<lambda>messageCount.
      if messageCount \<le> 10 \<or> isSubscribed
      then (let subscriptionMessage = subscription_messages_expired in
            await (call (SendWhatsAppMessage frm subscriptionMessage)
                     (h_sendWhatsAppMessage h frm subscriptionMessage))
             (\<lambda>_. resolve \<lparr>status = subscription_required,
                             result_message = subscriptionMessage\<rparr>))
      else
      await (call (GetConversationContext frm) (h_getConversationContext h frm))
       (\<lambda>contextMessages.
      (let context = join [CHR 0x0A]
                       (map (\<lambda>msg. role msg @ '': '' @ content msg) contextMessages);
           prompt = (if messageType md = ''image'' then messageForAI (message md)
                     else [TextPart (''Previous conversation:'' @ [CHR 0x0A] @ context
                             @ [CHR 0x0A, CHR 0x0A] @ ''User: '' @ messageContent (message md)
                             @ [CHR 0x0A] @ ''Assistant:'')])
       in
      await (call (GenerateAIResponse prompt) (h_generateAIResponse h prompt))
       (\<lambda>aiResponse.
      await (promise_all
               (call (SendWhatsAppMessage frm aiResponse) (h_sendWhatsAppMessage h frm aiResponse))
               (call (SaveMessage frm (messageContent (message md)) aiResponse)
                  (h_saveMessage h frm (messageContent (message md)) aiResponse)))
       (\<lambda>_. resolve \<lparr>status = success, result_message = aiResponse\<rparr>))))))))"

definition processMessageDirectly :: "'w messageData \<Rightarrow> (result, 'w pstate) async" where
  "processMessageDirectly md s =
     (case pipeline_try md s of
        (Inl e, s') \<Rightarrow> (Inl e, logger_error (''Error in direct processing: '' @ err_message e) s')
      | (Inr r, s') \<Rightarrow> (Inr r, s'))"

section \<open>The queue (queueService)\<close>

text \<open>
  An invocation of \<open>processDelayedMessages\<close> that has not returned yet waits either for
  the pipeline run of the entry it has taken from the buffer, or for the 100 ms pause
  after a run.
\<close>

datatype 'w drain = AwaitPipeline "'w messageData" | AwaitPause

text \<open>
  The module state of queueService (\<open>requestCount\<close>, \<open>delayedMessages\<close>,
  \<open>processingDelayed\<close>), the invocations of \<open>processDelayedMessages\<close> that are in
  flight, and the state of the services with the trace.
\<close>

record 'w sys =
  requestCount :: nat
  delayedMessages :: "'w messageData list"
  processingDelayed :: bool
  drains :: "'w drain list"
  st :: "'w pstate"

definition init :: "'w \<Rightarrow> 'w sys" where
  "init w = \<lparr>requestCount = 0, delayedMessages = [], processingDelayed = False, drains = [],
             st = \<lparr>wld = w, trace = []\<rparr>\<rparr>"

text \<open>A number in a template string: its decimal digits.\<close>

definition digit_char :: "nat \<Rightarrow> char" where
  "digit_char d = ''0123456789'' ! d"

fun string_of_nat :: "nat \<Rightarrow> string" where
  "string_of_nat n =
     (if 10 \<le> n then string_of_nat (n div 10) @ [digit_char (n mod 10)] else [digit_char n])"

declare string_of_nat.simps [simp del]

text \<open>What \<open>handleMessage\<close> of queueService returns: \<open>{delayed: true}\<close> or the pipeline's result.\<close>

datatype handled = Delayed | Direct result

text \<open>\<open>handleMessage\<close> of queueService, imported by the controller as \<open>queueHandler\<close>.\<close>

definition queueHandler :: "'w messageData \<Rightarrow> (handled, 'w sys) async" where
  "queueHandler md s =
     (let s1 = s\<lparr>requestCount := requestCount s + 1\<rparr> in
      if requestCount s1 > rateLimit_threshold
      then (Inr Delayed,
            s1\<lparr>st := logger_info (''High traffic detected ('' @ string_of_nat (requestCount s1)
                         @ '' req/s). Delaying message processing.'') (st s1),
                delayedMessages := delayedMessages s1 @ [md]\<rparr>)
      else (case processMessageDirectly md (logger_info ''Processing message directly.'' (st s1)) of
              (Inr r, p) \<Rightarrow> (Inr (Direct r), s1\<lparr>st := p\<rparr>)
            | (Inl e, p) \<Rightarrow>
                (Inl e, s1\<lparr>st := logger_error (''Error handling message: '' @ err_message e) p\<rparr>)))"

text \<open>\<open>while (delayedMessages.length > 0) { const messageData = delayedMessages.shift(); ...\<close>\<close>

definition loop_test :: "'w sys \<Rightarrow> 'w messageData option \<times> 'w sys" where
  "loop_test s =
     (case delayedMessages s of
        [] \<Rightarrow> (None, s)
      | md # rest \<Rightarrow> (Some md, s\<lparr>delayedMessages := rest\<rparr>))"

text \<open>\<open>finally { processingDelayed = false; }\<close>, after which invocation \<open>k\<close> has returned.\<close>

definition drain_finally :: "nat \<Rightarrow> 'w sys \<Rightarrow> 'w sys" where
  "drain_finally k s =
     s\<lparr>processingDelayed := False, drains := take k (drains s) @ drop (Suc k) (drains s)\<rparr>"

text \<open>
  \<open>processDelayedMessages\<close>, from the call up to its first \<open>await\<close> (or its return).
\<close>

definition processDelayedMessages :: "'w sys \<Rightarrow> 'w sys" where
  "processDelayedMessages s =
     (if delayedMessages s = [] then s
      else
        (let s1 = s\<lparr>processingDelayed := True,
                    st := logger_info (''Processing '' @ string_of_nat (length (delayedMessages s))
                                         @ '' delayed messages'') (st s)\<rparr>
         in case loop_test s1 of
              (Some md, s2) \<Rightarrow> s2\<lparr>drains := drains s2 @ [AwaitPipeline md]\<rparr>
            | (None, s2) \<Rightarrow> s2\<lparr>processingDelayed := False\<rparr>))"

text \<open>
  Invocation \<open>k\<close> of \<open>processDelayedMessages\<close> goes on from the \<open>await\<close> it waits at, up
  to its next \<open>await\<close> or its return. The pipeline run it waited for takes its effect
  here.
\<close>

definition resume :: "nat \<Rightarrow> 'w sys \<Rightarrow> 'w sys" where
  "resume k s =
     (if k < length (drains s) then
        (case drains s ! k of
           AwaitPipeline md \<Rightarrow>
             (case processMessageDirectly md (st s) of
                (Inr r, p) \<Rightarrow> s\<lparr>st := p, drains := (drains s)[k := AwaitPause]\<rparr>
              | (Inl e, p) \<Rightarrow>
                  drain_finally k
                    (s\<lparr>st := logger_error (''Error processing delayed messages: ''
                                             @ err_message e) p\<rparr>))
         | AwaitPause \<Rightarrow>
             (case loop_test s of
                (Some md, s1) \<Rightarrow> s1\<lparr>drains := (drains s1)[k := AwaitPipeline md]\<rparr>
              | (None, s1) \<Rightarrow> drain_finally k s1))
      else s)"

text \<open>The callback of \<open>setInterval\<close>, run once per window.\<close>

definition interval_callback :: "'w sys \<Rightarrow> 'w sys" where
  "interval_callback s =
     (let s1 = s\<lparr>requestCount := 0\<rparr> in
      if length (delayedMessages s1) > 0 \<and> \<not> processingDelayed s1
      then processDelayedMessages s1
      else s1)"

text \<open>
  The step relation of the queue: a message is submitted, the window timer fires, or
  the promise that invocation \<open>k\<close> of \<open>processDelayedMessages\<close> awaits settles.
\<close>

datatype 'w qevent = Submit "'w messageData" | Tick | Resume nat

fun qstep :: "'w qevent \<Rightarrow> 'w sys \<Rightarrow> 'w sys" where
  "qstep (Submit md) s = snd (queueHandler md s)"
| "qstep Tick s = interval_callback s"
| "qstep (Resume k) s = resume k s"

definition exec :: "'w qevent list \<Rightarrow> 'w sys \<Rightarrow> 'w sys" where
  "exec evs s = foldl (\<lambda>s e. qstep e s) s evs"

text \<open>Submitting messages one after the other, with the outcome of each.\<close>

fun submit_all :: "'w messageData list \<Rightarrow> 'w sys \<Rightarrow> (error + handled) list \<times> 'w sys" where
  "submit_all [] s = ([], s)"
| "submit_all (md # mds) s =
     (case queueHandler md s of (r, s1) \<Rightarrow>
      case submit_all mds s1 of (rs, s2) \<Rightarrow> (r # rs, s2))"

text \<open>
  A drain is let run until it has returned: at most \<open>n\<close> resumptions of invocation 0.
\<close>

fun run_drain :: "nat \<Rightarrow> 'w sys \<Rightarrow> 'w sys" where
  "run_drain 0 s = s"
| "run_drain (Suc n) s = (if drains s = [] then s else run_drain n (qstep (Resume 0) s))"

text \<open>
  One window in which nothing is submitted: the timer fires, and the drain it may have
  started runs until it returns (two resumptions for each entry are enough).
\<close>

definition window :: "'w sys \<Rightarrow> 'w sys" where
  "window s = run_drain (2 * length (delayedMessages s)) (qstep Tick s)"

text \<open>
  At most one invocation of \<open>processDelayedMessages\<close> is in flight, and
  \<open>processingDelayed\<close> is set exactly while one is.
\<close>

definition one_drain :: "'w sys \<Rightarrow> bool" where
  "one_drain s \<longleftrightarrow> length (drains s) \<le> 1 \<and> (processingDelayed s \<longleftrightarrow> drains s \<noteq> [])"

text \<open>
  The senders of the pipeline runs in a trace: every run starts with exactly one call
  of \<open>checkSubscription\<close> for its sender.
\<close>

fun attempts :: "event list \<Rightarrow> string list" where
  "attempts [] = []"
| "attempts (CheckSubscription f # evs) = f # attempts evs"
| "attempts (_ # evs) = attempts evs"

section \<open>The controller (messageController: handleMessage)\<close>

text \<open>
  The first message of a webhook payload: its sender and, by \<open>message.type\<close>, the
  text body, the id of the audio, the id and caption of the image (the caption is empty
  when there is none), or a type that is none of the three.
\<close>

datatype payload = Text string | Audio string | Image string string | Other string

record wa_message =
  msg_from :: string
  msg_payload :: payload

text \<open>
  The services that the controller imports and that act outside the database. Their
  modules are not part of the sources, except paymentService, whose
  \<open>checkStripeSubscription\<close> asks the billing provider and answers \<open>false\<close> on every
  error: it never rejects.
\<close>

record 'e services =
  isBlockedCountry :: "string \<Rightarrow> bool"
  transcribeAudio :: "string \<Rightarrow> (string, 'e) async"
  downloadImageFromWhatsApp :: "string \<Rightarrow> (string, 'e) async"
  sendText :: "string \<Rightarrow> string \<Rightarrow> (unit, 'e) async"
  generateResponse :: "part list \<Rightarrow> (string, 'e) async"
  checkStripeSubscription :: "string \<Rightarrow> 'e \<Rightarrow> bool \<times> 'e"

definition outside :: "('a, 'e) async \<Rightarrow> ('a, 'e world) async" where
  "outside f w = (case f (extern w) of (r, e') \<Rightarrow> (r, w\<lparr>extern := e'\<rparr>))"

text \<open>The \<open>handlers\<close> object that the controller builds.\<close>

definition handlers_of :: "'e services \<Rightarrow> 'e world handlers" where
  "handlers_of sv =
     \<lparr>h_checkSubscription =
        (\<lambda>phoneNumber. outside (\<lambda>e. case checkStripeSubscription sv phoneNumber e of
                                        (b, e') \<Rightarrow> (Inr b, e'))),
      h_findOrCreateUser = findOrCreateUser,
      h_updateSubscription = updateSubscription,
      h_incrementMessageCount = incrementMessageCount,
      h_getConversationContext = getConversationContext,
      h_generateAIResponse = (\<lambda>prompt. outside (generateResponse sv prompt)),
      h_sendWhatsAppMessage = (\<lambda>to text. outside (sendText sv to text)),
      h_saveMessage = saveMessage\<rparr>"

definition prompts_image_withCaption :: "string \<Rightarrow> string" where
  "prompts_image_withCaption caption =
     ''Please analyze this image, say which plant it is and check for any health issues.: ''
     @ [CHR 0x22] @ caption @ [CHR 0x22] @ '' in {context}.''"

definition prompts_image_withoutCaption :: string where
  "prompts_image_withoutCaption = ''Please analyze this image in {context}.''"

text \<open>\<open>String.prototype.replace\<close> with a string pattern: the first occurrence only.\<close>

fun replace_first :: "string \<Rightarrow> string \<Rightarrow> string \<Rightarrow> string" where
  "replace_first pat rep [] = (if pat = [] then rep else [])"
| "replace_first pat rep (c # cs) =
     (if take (length pat) (c # cs) = pat then rep @ drop (length pat) (c # cs)
      else c # replace_first pat rep cs)"

definition on_st :: "('a, 'w pstate) async \<Rightarrow> ('a, 'w sys) async" where
  "on_st m s = (case m (st s) of (r, p) \<Rightarrow> (r, s\<lparr>st := p\<rparr>))"

definition info :: "string \<Rightarrow> 'w sys \<Rightarrow> 'w sys" where
  "info m s = s\<lparr>st := logger_info m (st s)\<rparr>"

text \<open>\<open>result.status\<close> in a template string; \<open>{delayed: true}\<close> has no \<open>status\<close>.\<close>

fun status_text :: "handled \<Rightarrow> string" where
  "status_text Delayed = ''undefined''"
| "status_text (Direct r) =
     (case status r of success \<Rightarrow> ''success'' | subscription_required \<Rightarrow> ''subscription_required'')"

text \<open>The end of the \<open>try\<close> block: the message goes to the queue with the handlers.\<close>

definition to_queue ::
  "'e services \<Rightarrow> string \<Rightarrow> string \<Rightarrow> string \<Rightarrow> part list \<Rightarrow> (handled option, 'e world sys) async"
where
  "to_queue sv frm mtype content_text forAI s =
     (case queueHandler
             \<lparr>message = \<lparr>messageContent = content_text, messageForAI = forAI\<rparr>,
              from_id = frm, messageType = mtype, handlers = handlers_of sv\<rparr>
             (info (''Processing message from '' @ frm @ '' with type '' @ mtype) s) of
        (Inl e, s1) \<Rightarrow> (Inl e, s1)
      | (Inr r, s1) \<Rightarrow>
          (Inr (Some r), info (''Message processed with status: '' @ status_text r) s1))"

text \<open>
  The \<open>try\<close> block of the controller's \<open>handleMessage\<close>. It returns nothing (\<open>None\<close>)
  when there is no message, the sender's country is blocked or the type is not
  supported. The image prompt replaces \<open>{context}\<close> by
  \<open>botConfig.ai.prompts.defaultContext\<close>, which botConfig does not define (its
  \<open>defaultContext\<close> is under \<open>prompts.image\<close>): the replacement is the text
  \<open>undefined\<close>.
\<close>

definition handleMessage_try ::
  "'e services \<Rightarrow> wa_message option \<Rightarrow> (handled option, 'e world sys) async"
where
  "handleMessage_try sv req s =
     (let s0 = info ''Processing incoming message:'' s in
      case req of
        None \<Rightarrow> (Inr None, info ''No message in webhook payload'' s0)
      | Some m \<Rightarrow>
          (let frm = msg_from m in
           if isBlockedCountry sv frm
           then await (on_st (call (SendWhatsAppMessage frm blockedCountries_message)
                                (outside (sendText sv frm blockedCountries_message))))
                  (\<lambda>_. resolve None)
                  (info (''Blocked message from country: '' @ frm) s0)
           else
             (case msg_payload m of
                Text body \<Rightarrow>
                  to_queue sv frm ''text'' body [TextPart body]
                    (info (''Prepared text message: '' @ body) s0)
              | Audio mediaId \<Rightarrow>
                  await (on_st (call (TranscribeAudio mediaId) (outside (transcribeAudio sv mediaId))))
                    (\<lambda>transcript s1.
                       to_queue sv frm ''audio'' transcript [TextPart transcript]
                         (info (''Transcribed audio message: '' @ transcript) s1))
                    s0
              | Image imageId caption \<Rightarrow>
                  await (on_st (call (DownloadImage imageId)
                                  (outside (downloadImageFromWhatsApp sv imageId))))
                    (\<lambda>imageUrl s1.
                       (let content_text = (if caption \<noteq> [] then ''Image with caption: '' @ caption
                                            else ''Image sent by user'');
                            promptTemplate = (if caption \<noteq> [] then prompts_image_withCaption caption
                                              else prompts_image_withoutCaption)
                        in to_queue sv frm ''image'' content_text
                             [TextPart (replace_first ''{context}'' ''undefined'' promptTemplate),
                              ImageUrlPart imageUrl]
                             (info (''Prepared image message with caption: '' @ caption) s1)))
                    s0
              | Other t \<Rightarrow>
                  await (on_st (call (SendWhatsAppMessage frm errors_unsupportedType)
                                  (outside (sendText sv frm errors_unsupportedType))))
                    (\<lambda>_. resolve None)
                    (info (''Unsupported message type: '' @ t) s0))))"

text \<open>
  \<open>handleMessage\<close> of the controller. Its \<open>catch\<close> block logs the error and its stack
  (which starts with the message) and then evaluates \<open>if (from)\<close>. \<open>from\<close> is declared
  with \<open>const\<close> inside the \<open>try\<close> block, so no binding of it is in scope in the
  \<open>catch\<close> block: the test throws a ReferenceError, the \<open>sendText\<close> of
  \<open>botConfig.errors.general\<close> behind it is never reached, and the function rejects.
\<close>

definition handleMessage ::
  "'e services \<Rightarrow> wa_message option \<Rightarrow> (handled option, 'e world sys) async"
where
  "handleMessage sv req s =
     (case handleMessage_try sv req s of
        (Inr r, s1) \<Rightarrow> (Inr r, s1)
      | (Inl e, s1) \<Rightarrow>
          (Inl (ReferenceError ''from''),
           s1\<lparr>st := logger_error (err_message e)
                      (logger_error (''Error processing message: '' @ err_message e) (st s1))\<rparr>))"

text \<open>The stored message count of a user (0 for a user without a row).\<close>

definition count_of :: "'e world \<Rightarrow> string \<Rightarrow> int" where
  "count_of w userId = (case users w userId of None \<Rightarrow> 0 | Some r \<Rightarrow> message_count r)"


section \<open>Pipeline runs that overlap\<close>









section \<open>What a drain does to the services\<close>

text \<open>The calls of services in a trace, without the lines of the logger.\<close>

fun is_log :: "event \<Rightarrow> bool" where
  "is_log (LogInfo m) = True"
| "is_log (LogError m) = True"
| "is_log _ = False"

definition calls_of :: "event list \<Rightarrow> event list" where
  "calls_of evs = filter (\<lambda>ev. \<not> is_log ev) evs"

text \<open>Two states that differ in the lines of the logger only.\<close>

definition same_calls :: "'w pstate \<Rightarrow> 'w pstate \<Rightarrow> bool" where
  "same_calls p q \<longleftrightarrow> wld p = wld q \<and> calls_of (trace p) = calls_of (trace q)"

text \<open>
  An \<open>async\<close> function that does not read the logger's lines: on states that differ in
  them only, it gives the same result and leaves such states again.
\<close>

definition log_blind :: "('a, 'w pstate) async \<Rightarrow> bool" where
  "log_blind m \<longleftrightarrow>
     (\<forall>p q. same_calls p q \<longrightarrow> fst (m p) = fst (m q) \<and> same_calls (snd (m p)) (snd (m q)))"

text \<open>The pipeline run on each message of a list, in the order of the list.\<close>

definition run_seq :: "'w messageData list \<Rightarrow> 'w pstate \<Rightarrow> 'w pstate" where
  "run_seq mds p = foldl (\<lambda>p md. snd (processMessageDirectly md p)) p mds"

section \<open>Example states\<close>

definition example_messages :: "message_row list" where
  "example_messages =
     [\<lparr>row_user_id = ''31600000001'', row_role = ''user'', row_content = ''q1'', created_at = 2\<rparr>,
      \<lparr>row_user_id = ''31600000001'', row_role = ''assistant'', row_content = ''a1'', created_at = 2\<rparr>,
      \<lparr>row_user_id = ''31600000001'', row_role = ''user'', row_content = ''q2'', created_at = 4\<rparr>,
      \<lparr>row_user_id = ''31600000001'', row_role = ''assistant'', row_content = ''a2'', created_at = 4\<rparr>,
      \<lparr>row_user_id = ''31600000001'', row_role = ''user'', row_content = ''q3'', created_at = 6\<rparr>,
      \<lparr>row_user_id = ''31600000002'', row_role = ''user'', row_content = ''other'', created_at = 5\<rparr>,
      \<lparr>row_user_id = ''31600000001'', row_role = ''assistant'', row_content = ''a3'', created_at = 6\<rparr>,
      \<lparr>row_user_id = ''31600000001'', row_role = ''user'', row_content = ''q4'', created_at = 8\<rparr>,
      \<lparr>row_user_id = ''31600000001'', row_role = ''assistant'', row_content = ''a4'', created_at = 8\<rparr>,
      \<lparr>row_user_id = ''31600000001'', row_role = ''user'', row_content = ''q5'', created_at = 10\<rparr>,
      \<lparr>row_user_id = ''31600000001'', row_role = ''assistant'', row_content = ''a5'', created_at = 10\<rparr>,
      \<lparr>row_user_id = ''31600000001'', row_role = ''user'', row_content = ''q6'', created_at = 12\<rparr>,
      \<lparr>row_user_id = ''31600000001'', row_role = ''assistant'', row_content = ''a6'', created_at = 12\<rparr>]"

definition example_db :: "unit world" where
  "example_db =
     \<lparr>users = [''31600000001'' \<mapsto> \<lparr>user_id = ''31600000001'', message_count = 10, is_subscribed = False\<rparr>,
               ''31600000002'' \<mapsto> \<lparr>user_id = ''31600000002'', message_count = 25, is_subscribed = True\<rparr>,
               ''31600000003'' \<mapsto> \<lparr>user_id = ''31600000003'', message_count = 2, is_subscribed = True\<rparr>],
      messages = example_messages, clock = 13, faults = [], db_log = [], extern = ()\<rparr>"

text \<open>
  Services that always answer: the billing provider knows one subscriber, and the AI
  provider has one reply.
\<close>

definition example_services :: "unit services" where
  "example_services =
     \<lparr>isBlockedCountry = (\<lambda>phone. False),
      transcribeAudio = (\<lambda>mediaId e. (Inr ''transcript'', e)),
      downloadImageFromWhatsApp = (\<lambda>imageId e. (Inr ''https://example.org/image'', e)),
      sendText = (\<lambda>to text e. (Inr (), e)),
      generateResponse = (\<lambda>prompt e. (Inr ''Water it less.'', e)),
      checkStripeSubscription = (\<lambda>phone e. (phone = ''31600000002'', e))\<rparr>"

text \<open>The same services with an AI provider that is down.\<close>

definition failing_responder :: "unit services" where
  "failing_responder =
     example_services\<lparr>generateResponse := (\<lambda>prompt e. (Inl (Error ''provider unavailable''), e))\<rparr>"

definition example_text :: "string \<Rightarrow> unit world messageData" where
  "example_text frm =
     \<lparr>message = \<lparr>messageContent = ''hello'', messageForAI = [TextPart ''hello'']\<rparr>,
      from_id = frm, messageType = ''text'', handlers = handlers_of example_services\<rparr>"

definition example_state :: "unit world pstate" where
  "example_state = \<lparr>wld = example_db, trace = []\<rparr>"

text \<open>
  Handlers without a state behind them, for runs of the queue: all of them answer, the
  count they report is 1. In \<open>broken_message\<close> the entitlement check rejects.
\<close>

definition quiet_handlers :: "unit handlers" where
  "quiet_handlers =
     \<lparr>h_checkSubscription = (\<lambda>phone w. (Inr False, w)),
      h_findOrCreateUser =
        (\<lambda>userId w. (Inr \<lparr>user_id = userId, message_count = 0, is_subscribed = False\<rparr>, w)),
      h_updateSubscription = (\<lambda>userId b w. (Inr (), w)),
      h_incrementMessageCount = (\<lambda>userId w. (Inr 1, w)),
      h_getConversationContext = (\<lambda>userId w. (Inr [], w)),
      h_generateAIResponse = (\<lambda>prompt w. (Inr ''ok'', w)),
      h_sendWhatsAppMessage = (\<lambda>to text w. (Inr (), w)),
      h_saveMessage = (\<lambda>userId userMessage aiResponse w. (Inr (), w))\<rparr>"

definition quiet_message :: "string \<Rightarrow> unit messageData" where
  "quiet_message frm =
     \<lparr>message = \<lparr>messageContent = ''hello'', messageForAI = [TextPart ''hello'']\<rparr>,
      from_id = frm, messageType = ''text'', handlers = quiet_handlers\<rparr>"

definition broken_message :: "string \<Rightarrow> unit messageData" where
  "broken_message frm =
     \<lparr>message = \<lparr>messageContent = ''hello'', messageForAI = [TextPart ''hello'']\<rparr>,
      from_id = frm, messageType = ''text'',
      handlers = quiet_handlers\<lparr>h_checkSubscription :=
                   (\<lambda>phone w. (Inl (Error ''billing unavailable''), w))\<rparr>\<rparr>"

text \<open>No drain in flight, three deferred entries, the first of which will fail.\<close>

definition backlog :: "unit sys" where
  "backlog = (init ())\<lparr>delayedMessages :=
                [broken_message ''31600000001'', quiet_message ''31600000002'',
                 quiet_message ''31600000003'']\<rparr>"

section \<open>Properties of databaseService\<close>

lemma request_messages: "request w = (r, w') \<Longrightarrow> messages w' = messages w \<and> users w' = users w \<and> extern w' = extern w"
  by (auto simp: request_def split: list.splits)

lemma recent_suffix:
  fixes ys :: "message_row list" and n :: nat
  assumes "sorted (map created_at ys)"
  defines "rows \<equiv> rev (take n (rev ys))"
  shows "length rows = min n (length ys)"
    and "sorted (map created_at rows)"
    and "mset rows \<subseteq># mset ys"
    and "\<forall>old \<in># mset ys - mset rows. \<forall>r \<in> set rows. created_at old \<le> created_at r"
proof -
  have rows: "rows = drop (length ys - n) ys"
    by (simp add: rows_def rev_take)
  show "length rows = min n (length ys)" by (simp add: rows)
  show "sorted (map created_at rows)"
    using assms(1) by (simp add: rows sorted_wrt_drop drop_map[symmetric])
  have split: "mset ys = mset (take (length ys - n) ys) + mset rows"
    by (simp add: rows flip: mset_append)
  show "mset rows \<subseteq># mset ys" by (simp add: split)
  have "sorted (map created_at (take (length ys - n) ys @ rows))"
    using assms(1) by (simp add: rows)
  then have "\<forall>a \<in> set (take (length ys - n) ys). \<forall>r \<in> set rows. created_at a \<le> created_at r"
    by (auto simp: sorted_append simp del: append_take_drop_id)
  moreover have "mset ys - mset rows = mset (take (length ys - n) ys)"
    by (simp add: split)
  ultimately show "\<forall>old \<in># mset ys - mset rows. \<forall>r \<in> set rows. created_at old \<le> created_at r"
    by simp
qed



text \<open>
  C9. When the query succeeds, \<open>getConversationContext\<close> returns at most
  \<open>contextMessageLimit\<close> (10) turns: the \<open>role\<close> and \<open>content\<close> of rows of that user,
  as many as the user has up to 10, in the order of increasing \<open>created_at\<close> (oldest
  first), and every row of the user that is left out is at most as recent as each row
  that is returned.
\<close>

theorem getConversationContext_recent:
  assumes "fst (request w) = None"
  shows "\<exists>turns rows. fst (getConversationContext userId w) = Inr turns
           \<and> turns = map select_role_content rows
           \<and> length turns \<le> contextMessageLimit
           \<and> length rows = min 10 (length (filter (\<lambda>r. row_user_id r = userId) (messages w)))
           \<and> sorted (map created_at rows)
           \<and> mset rows \<subseteq># mset (filter (\<lambda>r. row_user_id r = userId) (messages w))
           \<and> (\<forall>old \<in># mset (filter (\<lambda>r. row_user_id r = userId) (messages w)) - mset rows.
                 \<forall>r \<in> set rows. created_at old \<le> created_at r)"
proof -
  let ?xs = "filter (\<lambda>r. row_user_id r = userId) (messages w)"
  let ?ys = "sort_key created_at ?xs"
  let ?rows = "rev (take 10 (rev ?ys))"
  obtain w1 where req: "request w = (None, w1)" using assms by (cases "request w") auto
  have msgs: "messages w1 = messages w" using req request_messages by blast
  have turns: "fst (getConversationContext userId w) = Inr (map select_role_content ?rows)"
    using req msgs
    by (simp add: getConversationContext_def context_rows_def order_created_at_desc_def
        contextMessageLimit_def rev_map)
  have s: "sorted (map created_at ?ys)" by simp
  note R = recent_suffix[OF s, of 10]
  have m: "mset ?ys = mset ?xs" by simp
  show ?thesis
    apply (rule exI[of _ "map select_role_content ?rows"])
    apply (rule exI[of _ ?rows])
    using turns R m by (simp add: contextMessageLimit_def)
qed

theorem getConversationContext_recent_witness:
  "fst (request example_db) = None
   \<and> fst (getConversationContext ''31600000001'' example_db) =
       Inr [\<lparr>role = ''user'', content = ''q2''\<rparr>, \<lparr>role = ''assistant'', content = ''a2''\<rparr>,
            \<lparr>role = ''user'', content = ''q3''\<rparr>, \<lparr>role = ''assistant'', content = ''a3''\<rparr>,
            \<lparr>role = ''user'', content = ''q4''\<rparr>, \<lparr>role = ''assistant'', content = ''a4''\<rparr>,
            \<lparr>role = ''user'', content = ''q5''\<rparr>, \<lparr>role = ''assistant'', content = ''a5''\<rparr>,
            \<lparr>role = ''user'', content = ''q6''\<rparr>, \<lparr>role = ''assistant'', content = ''a6''\<rparr>]
   \<and> (\<exists>turns rows. fst (getConversationContext ''31600000001'' example_db) = Inr turns
           \<and> turns = map select_role_content rows
           \<and> length turns \<le> contextMessageLimit
           \<and> length rows = min 10 (length (filter (\<lambda>r. row_user_id r = ''31600000001'') (messages example_db)))
           \<and> sorted (map created_at rows)
           \<and> mset rows \<subseteq># mset (filter (\<lambda>r. row_user_id r = ''31600000001'') (messages example_db))
           \<and> (\<forall>old \<in># mset (filter (\<lambda>r. row_user_id r = ''31600000001'') (messages example_db)) - mset rows.
                 \<forall>r \<in> set rows. created_at old \<le> created_at r))"
proof -
  have h: "fst (request example_db) = None"
    by (simp add: request_def example_db_def)
  have v: "fst (getConversationContext ''31600000001'' example_db) =
       Inr [\<lparr>role = ''user'', content = ''q2''\<rparr>, \<lparr>role = ''assistant'', content = ''a2''\<rparr>,
            \<lparr>role = ''user'', content = ''q3''\<rparr>, \<lparr>role = ''assistant'', content = ''a3''\<rparr>,
            \<lparr>role = ''user'', content = ''q4''\<rparr>, \<lparr>role = ''assistant'', content = ''a4''\<rparr>,
            \<lparr>role = ''user'', content = ''q5''\<rparr>, \<lparr>role = ''assistant'', content = ''a5''\<rparr>,
            \<lparr>role = ''user'', content = ''q6''\<rparr>, \<lparr>role = ''assistant'', content = ''a6''\<rparr>]"
    by (simp add: getConversationContext_def request_def example_db_def example_messages_def
        context_rows_def order_created_at_desc_def contextMessageLimit_def select_role_content_def)
  show ?thesis
    using h v getConversationContext_recent[OF h, of "''31600000001''"] by blast
qed

section \<open>The message count\<close>

lemma request_count: "request w = (f, w1) \<Longrightarrow> count_of w1 u = count_of w u"
  by (auto simp: request_def count_of_def split: list.splits)

lemma findOrCreateUser_count:
  assumes "findOrCreateUser x w = (r, w1)"
  shows "count_of w1 u = count_of w u"
    and "r = Inr user \<Longrightarrow> users w1 x = Some user \<and> message_count user = count_of w x"
  using assms
  by (auto simp: findOrCreateUser_def request_def count_of_def log_and_rethrow_def Let_def
      split: list.splits option.splits prod.splits if_splits)

lemma incrementMessageCount_count:
  assumes "incrementMessageCount x w = (r, w1)"
  shows "u \<noteq> x \<Longrightarrow> count_of w1 u = count_of w u"
    and "r = Inl e \<Longrightarrow> count_of w1 u = count_of w u"
    and "r = Inr n \<Longrightarrow> n = count_of w x + 1 \<and> count_of w1 x = count_of w x + 1"
proof -
  obtain r0 w0 where f: "findOrCreateUser x w = (r0, w0)" by (cases "findOrCreateUser x w")
  obtain q w2 where q: "request w0 = (q, w2)" by (cases "request w0")
  have c0: "\<And>v. count_of w0 v = count_of w v" using f findOrCreateUser_count(1) by blast
  have c2: "\<And>v. count_of w2 v = count_of w0 v" using q request_count by blast
  have u2: "users w2 = users w0" using q request_messages by blast
  show "u \<noteq> x \<Longrightarrow> count_of w1 u = count_of w u"
    using assms f q c0[of u] c2[of u]
    by (auto simp: incrementMessageCount_def log_and_rethrow_def Let_def update_user_def count_of_def
        split: sum.splits option.splits if_splits)
  show "r = Inl e \<Longrightarrow> count_of w1 u = count_of w u"
    using assms f q c0[of u] c2[of u]
    by (auto simp: incrementMessageCount_def log_and_rethrow_def Let_def update_user_def count_of_def
        split: sum.splits option.splits if_splits)
  show "r = Inr n \<Longrightarrow> n = count_of w x + 1 \<and> count_of w1 x = count_of w x + 1"
    using assms f q c0[of x] c2[of x] u2 findOrCreateUser_count(2)[OF f]
    by (auto simp: incrementMessageCount_def log_and_rethrow_def Let_def update_user_def count_of_def
        split: sum.splits option.splits if_splits)
qed






lemma call_wld: "call ev h s = (r, s') \<Longrightarrow> h (wld s) = (r, wld s') \<and> trace s' = trace s @ [ev]"
  by (auto simp: call_def split: prod.splits)


lemma processMessageDirectly_wld:
  "processMessageDirectly md s = (r, s') \<Longrightarrow>
     \<exists>s1. pipeline_try md s = (r, s1) \<and> wld s' = wld s1
          \<and> trace s' = trace s1 @ (case r of Inl e \<Rightarrow> [LogError (''Error in direct processing: '' @ err_message e)] | Inr _ \<Rightarrow> [])"
  by (auto simp: processMessageDirectly_def logger_error_def split: prod.splits sum.splits)

lemmas eval_defs = Let_def processMessageDirectly_def pipeline_try_def await_def promise_all_def resolve_def
  call_def handlers_of_def outside_def example_services_def example_text_def example_state_def
  example_db_def findOrCreateUser_def incrementMessageCount_def updateSubscription_def
  getConversationContext_def saveMessage_def request_def log_and_rethrow_def update_user_def
  context_rows_def order_created_at_desc_def contextMessageLimit_def select_role_content_def
  example_messages_def subscription_messages_expired_def logger_error_def count_of_def




















section \<open>The limit decision\<close>

text \<open>
  The decision as the code takes it, for any handlers: after the count increment, the
  next call is the send of the upsell message when the count is at most 10 or the
  sender is subscribed, and the fetch of the conversation context otherwise.
\<close>

lemma limit_decision_as_coded:
  assumes chk: "h_checkSubscription (handlers md) (from_id md) (wld s) = (Inr b, w1)"
      and fnd: "h_findOrCreateUser (handlers md) (from_id md) w1 = (Inr user, w2)"
      and same: "b = is_subscribed user"
      and inc: "h_incrementMessageCount (handlers md) (from_id md) w2 = (Inr n, w3)"
  shows "\<exists>evs. trace (snd (processMessageDirectly md s)) =
           trace s @ [CheckSubscription (from_id md), FindOrCreateUser (from_id md),
                      IncrementMessageCount (from_id md),
                      (if n \<le> 10 \<or> b
                       then SendWhatsAppMessage (from_id md) subscription_messages_expired
                       else GetConversationContext (from_id md))] @ evs"
  using assms
  by (auto simp: processMessageDirectly_def pipeline_try_def await_def promise_all_def call_def
      Let_def logger_error_def resolve_def split: prod.splits sum.splits)

text \<open>
  C1 (what the code does at an input of the claim). The sender has used 10 messages and
  is not subscribed, so the updated count 11 is above the free limit. The condition
  \<open>messageCount <= 10 || isSubscribed\<close> is false there: the pipeline fetches the
  context, calls the Responder, sends and stores its reply and returns \<open>success\<close>; the
  upsell message is not sent.
\<close>

theorem over_limit_unsubscribed_is_answered:
  "count_of example_db ''31600000001'' = 10 \<and> freeMessages < count_of example_db ''31600000001'' + 1
   \<and> fst (checkStripeSubscription example_services ''31600000001'' ()) = False
   \<and> fst (processMessageDirectly (example_text ''31600000001'') example_state)
       = Inr \<lparr>status = success, result_message = ''Water it less.''\<rparr>
   \<and> (\<exists>prompt. trace (snd (processMessageDirectly (example_text ''31600000001'') example_state))
       = [CheckSubscription ''31600000001'', FindOrCreateUser ''31600000001'',
          IncrementMessageCount ''31600000001'', GetConversationContext ''31600000001'',
          GenerateAIResponse prompt,
          SendWhatsAppMessage ''31600000001'' ''Water it less.'',
          SaveMessage ''31600000001'' ''hello'' ''Water it less.''])"
  by (simp add: eval_defs freeMessages_def)

text \<open>
  C2 (what the code does at an input of the claim). The billing check answers
  \<open>true\<close> for the sender, whose count goes from 25 to 26. \<open>isSubscribed\<close> makes the
  condition \<open>messageCount <= 10 || isSubscribed\<close> true: the pipeline sends the upsell
  message and returns \<open>subscription_required\<close>; the Responder is not called.
\<close>

theorem subscriber_gets_upsell:
  "fst (checkStripeSubscription example_services ''31600000002'' ()) = True
   \<and> fst (processMessageDirectly (example_text ''31600000002'') example_state)
       = Inr \<lparr>status = subscription_required, result_message = subscription_messages_expired\<rparr>
   \<and> trace (snd (processMessageDirectly (example_text ''31600000002'') example_state))
       = [CheckSubscription ''31600000002'', FindOrCreateUser ''31600000002'',
          IncrementMessageCount ''31600000002'',
          SendWhatsAppMessage ''31600000002'' subscription_messages_expired]"
  by (simp add: eval_defs)

section \<open>Failures\<close>

lemmas queue_eval_defs = handleMessage_def handleMessage_try_def to_queue_def queueHandler_def
  init_def info_def logger_info_def on_st_def rateLimit_threshold_def failing_responder_def

text \<open>
  C7 (what the code does at an input of the claim). A text message reaches the
  Responder, which fails. No turn is stored and the call rejects, but the \<open>catch\<close>
  block of the controller fails on \<open>from\<close> before it sends anything: the trace holds
  no \<open>sendText\<close> to the sender, and the rejection is the ReferenceError.
\<close>

theorem responder_failure_not_reported_to_sender:
  "fst (handleMessage failing_responder
           (Some \<lparr>msg_from = ''31600000001'', msg_payload = Text ''hello''\<rparr>) (init example_db))
     = Inl (ReferenceError ''from'')
   \<and> messages (wld (st (snd (handleMessage failing_responder
           (Some \<lparr>msg_from = ''31600000001'', msg_payload = Text ''hello''\<rparr>) (init example_db)))))
     = example_messages
   \<and> (\<exists>prompt. trace (st (snd (handleMessage failing_responder
           (Some \<lparr>msg_from = ''31600000001'', msg_payload = Text ''hello''\<rparr>) (init example_db))))
     = [LogInfo ''Processing incoming message:'',
        LogInfo ''Prepared text message: hello'',
        LogInfo ''Processing message from 31600000001 with type text'',
        LogInfo ''Processing message directly.'',
        CheckSubscription ''31600000001'', FindOrCreateUser ''31600000001'',
        IncrementMessageCount ''31600000001'', GetConversationContext ''31600000001'',
        GenerateAIResponse prompt,
        LogError ''Error in direct processing: provider unavailable'',
        LogError ''Error handling message: provider unavailable'',
        LogError ''Error processing message: provider unavailable'',
        LogError ''provider unavailable''])"
  by (simp add: queue_eval_defs eval_defs)

text \<open>
  C8 (counterexample). The stored flag of the sender is \<open>true\<close>, the billing check
  answers \<open>false\<close>, and the database refuses the update of the flag. The run rejects with
  that error right after \<open>updateSubscription\<close>: the count stays at 2 and nothing is
  sent.
\<close>

theorem reconciliation_failure_aborts_run:
  "fst (checkStripeSubscription example_services ''31600000003'' ()) = False
   \<and> map_option is_subscribed (users example_db ''31600000003'') = Some True
   \<and> fst (processMessageDirectly (example_text ''31600000003'')
            \<lparr>wld = example_db\<lparr>faults := [None, Some ''connection lost'']\<rparr>, trace = []\<rparr>)
       = Inl (Error ''connection lost'')
   \<and> trace (snd (processMessageDirectly (example_text ''31600000003'')
            \<lparr>wld = example_db\<lparr>faults := [None, Some ''connection lost'']\<rparr>, trace = []\<rparr>))
       = [CheckSubscription ''31600000003'', FindOrCreateUser ''31600000003'',
          UpdateSubscription ''31600000003'' False,
          LogError ''Error in direct processing: connection lost'']
   \<and> count_of (wld (snd (processMessageDirectly (example_text ''31600000003'')
            \<lparr>wld = example_db\<lparr>faults := [None, Some ''connection lost'']\<rparr>, trace = []\<rparr>)))
         ''31600000003'' = 2"
  by (simp add: eval_defs)

text \<open>
  C8 (as amended). When the fetched entitlement differs from the stored flag, the
  pipeline calls \<open>updateSubscription\<close> with the fetched value. If the call fails, the
  error is logged and rethrown and the run stops there: no count increment, no limit
  decision, no reply. If it succeeds, the run goes on with the count increment.
  \<open>updateSubscription\<close> itself stores the value in the row of the user when the update
  succeeds, and logs the error and leaves the table alone when it fails.
\<close>

theorem reconciliation_persists_or_aborts:
  assumes chk: "h_checkSubscription (handlers md) (from_id md) (wld s) = (Inr b, w1)"
      and fnd: "h_findOrCreateUser (handlers md) (from_id md) w1 = (Inr user, w2)"
      and diff: "b \<noteq> is_subscribed user"
      and upd: "h_updateSubscription (handlers md) (from_id md) b w2 = (ru, w3)"
  shows "(\<forall>e. ru = Inl e \<longrightarrow>
            processMessageDirectly md s =
              (Inl e, \<lparr>wld = w3,
                       trace = trace s @ [CheckSubscription (from_id md), FindOrCreateUser (from_id md),
                                          UpdateSubscription (from_id md) b,
                                          LogError (''Error in direct processing: '' @ err_message e)]\<rparr>))
       \<and> (ru = Inr () \<longrightarrow>
            (\<exists>evs. trace (snd (processMessageDirectly md s)) =
                     trace s @ [CheckSubscription (from_id md), FindOrCreateUser (from_id md),
                                UpdateSubscription (from_id md) b,
                                IncrementMessageCount (from_id md)] @ evs))
       \<and> (\<forall>x v (w :: 'e world) w' r. updateSubscription x v w = (Inr (), w') \<and> users w x = Some r \<longrightarrow>
              users w' x = Some (r\<lparr>is_subscribed := v\<rparr>))
       \<and> (\<forall>x v (w :: 'e world) w' e. updateSubscription x v w = (Inl e, w') \<longrightarrow>
              users w' = users w \<and> db_log w' = db_log w @ [''Error updating subscription: '' @ err_message e])"
proof (intro conjI allI impI)
  fix e assume "ru = Inl e"
  then show "processMessageDirectly md s =
              (Inl e, \<lparr>wld = w3,
                       trace = trace s @ [CheckSubscription (from_id md), FindOrCreateUser (from_id md),
                                          UpdateSubscription (from_id md) b,
                                          LogError (''Error in direct processing: '' @ err_message e)]\<rparr>)"
    using chk fnd diff upd
    by (simp add: processMessageDirectly_def pipeline_try_def await_def promise_all_def call_def
        Let_def logger_error_def)
next
  assume "ru = Inr ()"
  then show "\<exists>evs. trace (snd (processMessageDirectly md s)) =
                     trace s @ [CheckSubscription (from_id md), FindOrCreateUser (from_id md),
                                UpdateSubscription (from_id md) b,
                                IncrementMessageCount (from_id md)] @ evs"
    using chk fnd diff upd
    by (auto simp: processMessageDirectly_def pipeline_try_def await_def promise_all_def call_def
        Let_def logger_error_def resolve_def split: prod.splits sum.splits)
next
  fix x v and w w' :: "'e world" and r
  assume "updateSubscription x v w = (Inr (), w') \<and> users w x = Some r"
  then show "users w' x = Some (r\<lparr>is_subscribed := v\<rparr>)"
    by (auto simp: updateSubscription_def request_def log_and_rethrow_def update_user_def
        split: list.splits option.splits)
next
  fix x v and w w' :: "'e world" and e
  assume "updateSubscription x v w = (Inl e, w')"
  then show "users w' = users w"
    by (auto simp: updateSubscription_def request_def log_and_rethrow_def update_user_def
        split: list.splits option.splits)
next
  fix x v and w w' :: "'e world" and e
  assume "updateSubscription x v w = (Inl e, w')"
  then show "db_log w' = db_log w @ [''Error updating subscription: '' @ err_message e]"
    by (auto simp: updateSubscription_def request_def log_and_rethrow_def update_user_def
        split: list.splits option.splits)
qed

theorem reconciliation_persists_or_aborts_witness:
  "h_checkSubscription (handlers (example_text ''31600000003'')) ''31600000003''
       (example_db\<lparr>faults := [None, Some ''connection lost'']\<rparr>)
     = (Inr False, example_db\<lparr>faults := [None, Some ''connection lost'']\<rparr>)
   \<and> h_findOrCreateUser (handlers (example_text ''31600000003'')) ''31600000003''
       (example_db\<lparr>faults := [None, Some ''connection lost'']\<rparr>)
     = (Inr \<lparr>user_id = ''31600000003'', message_count = 2, is_subscribed = True\<rparr>,
        example_db\<lparr>faults := [Some ''connection lost''], clock := 14\<rparr>)
   \<and> h_updateSubscription (handlers (example_text ''31600000003'')) ''31600000003'' False
       (example_db\<lparr>faults := [Some ''connection lost''], clock := 14\<rparr>)
     = (Inl (Error ''connection lost''),
        example_db\<lparr>faults := [], clock := 15,
                   db_log := [''Error updating subscription: connection lost'']\<rparr>)
   \<and> processMessageDirectly (example_text ''31600000003'')
        \<lparr>wld = example_db\<lparr>faults := [None, Some ''connection lost'']\<rparr>, trace = []\<rparr>
     = (Inl (Error ''connection lost''),
        \<lparr>wld = example_db\<lparr>faults := [], clock := 15,
                            db_log := [''Error updating subscription: connection lost'']\<rparr>,
         trace = [CheckSubscription ''31600000003'', FindOrCreateUser ''31600000003'',
                  UpdateSubscription ''31600000003'' False,
                  LogError ''Error in direct processing: connection lost'']\<rparr>)
   \<and> updateSubscription ''31600000003'' False example_db
     = (Inr (), example_db\<lparr>clock := 14,
          users := (users example_db)(''31600000003'' \<mapsto>
             \<lparr>user_id = ''31600000003'', message_count = 2, is_subscribed = False\<rparr>)\<rparr>)"
proof -
  let ?md = "example_text ''31600000003''"
  let ?w0 = "example_db\<lparr>faults := [None, Some ''connection lost'']\<rparr>"
  let ?w2 = "example_db\<lparr>faults := [Some ''connection lost''], clock := 14\<rparr>"
  let ?w3 = "example_db\<lparr>faults := [], clock := 15,
                   db_log := [''Error updating subscription: connection lost'']\<rparr>"
  let ?user = "\<lparr>user_id = ''31600000003'', message_count = 2, is_subscribed = True\<rparr>"
  have f: "from_id ?md = ''31600000003''" by (simp add: example_text_def)
  have chk: "h_checkSubscription (handlers ?md) (from_id ?md) (wld \<lparr>wld = ?w0, trace = []\<rparr>) = (Inr False, ?w0)"
    by (simp add: example_text_def handlers_of_def outside_def example_services_def example_db_def)
  have fnd: "h_findOrCreateUser (handlers ?md) (from_id ?md) ?w0 = (Inr ?user, ?w2)"
    by (simp add: example_text_def handlers_of_def findOrCreateUser_def request_def example_db_def)
  have diff: "False \<noteq> is_subscribed ?user" by simp
  have upd: "h_updateSubscription (handlers ?md) (from_id ?md) False ?w2 = (Inl (Error ''connection lost''), ?w3)"
    by (simp add: example_text_def handlers_of_def updateSubscription_def request_def
        log_and_rethrow_def example_db_def)
  have ok: "updateSubscription ''31600000003'' False example_db
     = (Inr (), example_db\<lparr>clock := 14,
          users := (users example_db)(''31600000003'' \<mapsto>
             \<lparr>user_id = ''31600000003'', message_count = 2, is_subscribed = False\<rparr>)\<rparr>)"
    by (simp add: updateSubscription_def request_def update_user_def example_db_def)
  note T = reconciliation_persists_or_aborts[OF chk fnd diff upd]
  have run: "processMessageDirectly ?md \<lparr>wld = ?w0, trace = []\<rparr>
     = (Inl (Error ''connection lost''),
        \<lparr>wld = ?w3,
         trace = [CheckSubscription ''31600000003'', FindOrCreateUser ''31600000003'',
                  UpdateSubscription ''31600000003'' False,
                  LogError ''Error in direct processing: connection lost'']\<rparr>)"
    using T[THEN conjunct1, rule_format, OF refl] by (simp add: f)
  show ?thesis
    apply (intro conjI)
        apply (rule chk[unfolded f, simplified])
       apply (rule fnd[unfolded f])
      apply (rule upd[unfolded f])
     apply (rule run)
    apply (rule ok)
    done
qed

section \<open>Admission by the queue\<close>


lemma attempts_append: "attempts (xs @ ys) = attempts xs @ attempts ys"
  by (induction xs rule: attempts.induct) simp_all

lemma attempts_pipeline_try:
  assumes "pipeline_try md s = (r, s')"
  shows "attempts (trace s') = attempts (trace s) @ [from_id md]"
  using assms
  unfolding pipeline_try_def await_def promise_all_def resolve_def Let_def
  by (auto split: prod.splits sum.splits if_splits dest!: call_wld simp: attempts_append)

lemma attempts_run:
  "attempts (trace (snd (processMessageDirectly md s))) = attempts (trace s) @ [from_id md]"
proof -
  obtain r s1 where p: "pipeline_try md s = (r, s1)" by (cases "pipeline_try md s")
  show ?thesis
    using attempts_pipeline_try[OF p] p
    by (cases r) (simp_all add: processMessageDirectly_def logger_error_def attempts_append)
qed

lemma queueHandler_inline:
  assumes "requestCount s < rateLimit_threshold"
  shows "queueHandler md s =
           (case processMessageDirectly md (logger_info ''Processing message directly.'' (st s)) of
              (Inr r, p) \<Rightarrow> (Inr (Direct r), s\<lparr>requestCount := requestCount s + 1, st := p\<rparr>)
            | (Inl e, p) \<Rightarrow>
                (Inl e, s\<lparr>requestCount := requestCount s + 1,
                          st := logger_error (''Error handling message: '' @ err_message e) p\<rparr>))"
  using assms by (simp add: queueHandler_def Let_def split: prod.splits sum.splits)

lemma queueHandler_deferred:
  assumes "rateLimit_threshold \<le> requestCount s"
  shows "queueHandler md s =
           (Inr Delayed,
            s\<lparr>requestCount := requestCount s + 1,
              st := logger_info (''High traffic detected ('' @ string_of_nat (requestCount s + 1)
                         @ '' req/s). Delaying message processing.'') (st s),
              delayedMessages := delayedMessages s @ [md]\<rparr>)"
  using assms by (simp add: queueHandler_def Let_def)

lemma queueHandler_fields:
  "requestCount (snd (queueHandler md s)) = requestCount s + 1"
  "processingDelayed (snd (queueHandler md s)) = processingDelayed s"
  "drains (snd (queueHandler md s)) = drains s"
  by (auto simp: queueHandler_def Let_def split: prod.splits sum.splits)

lemma queueHandler_inline_facts:
  assumes "requestCount s < rateLimit_threshold"
  shows "fst (queueHandler md s) \<noteq> Inr Delayed"
    and "delayedMessages (snd (queueHandler md s)) = delayedMessages s"
    and "attempts (trace (st (snd (queueHandler md s)))) = attempts (trace (st s)) @ [from_id md]"
proof -
  let ?p = "logger_info ''Processing message directly.'' (st s)"
  obtain r p where run: "processMessageDirectly md ?p = (r, p)"
    by (cases "processMessageDirectly md ?p")
  have a: "attempts (trace p) = attempts (trace (st s)) @ [from_id md]"
    using attempts_run[of md ?p] run by (simp add: logger_info_def attempts_append)
  show "fst (queueHandler md s) \<noteq> Inr Delayed"
    using queueHandler_inline[OF assms, of md] run by (cases r) simp_all
  show "delayedMessages (snd (queueHandler md s)) = delayedMessages s"
    using queueHandler_inline[OF assms, of md] run by (cases r) simp_all
  show "attempts (trace (st (snd (queueHandler md s)))) = attempts (trace (st s)) @ [from_id md]"
    using queueHandler_inline[OF assms, of md] run a
    by (cases r) (simp_all add: logger_error_def attempts_append)
qed

lemma submit_all_inline:
  assumes "requestCount s + length mds \<le> rateLimit_threshold"
  shows "length (fst (submit_all mds s)) = length mds
       \<and> (\<forall>r \<in> set (fst (submit_all mds s)). r \<noteq> Inr Delayed)
       \<and> requestCount (snd (submit_all mds s)) = requestCount s + length mds
       \<and> delayedMessages (snd (submit_all mds s)) = delayedMessages s
       \<and> attempts (trace (st (snd (submit_all mds s)))) = attempts (trace (st s)) @ map from_id mds"
  using assms
proof (induction mds arbitrary: s)
  case Nil
  show ?case by simp
next
  case (Cons md mds)
  let ?s1 = "snd (queueHandler md s)"
  have lt: "requestCount s < rateLimit_threshold" using Cons.prems by simp
  have rc: "requestCount ?s1 = requestCount s + 1" by (rule queueHandler_fields)
  have "requestCount ?s1 + length mds \<le> rateLimit_threshold" using Cons.prems rc by simp
  note IH = Cons.IH[OF this]
  show ?case
    using IH rc queueHandler_inline_facts[OF lt, of md]
    by (simp add: split_beta)
qed

lemma submit_all_deferred:
  assumes "rateLimit_threshold \<le> requestCount s"
  shows "fst (submit_all mds s) = replicate (length mds) (Inr Delayed)
       \<and> delayedMessages (snd (submit_all mds s)) = delayedMessages s @ mds
       \<and> wld (st (snd (submit_all mds s))) = wld (st s)
       \<and> attempts (trace (st (snd (submit_all mds s)))) = attempts (trace (st s))"
  using assms
proof (induction mds arbitrary: s)
  case Nil
  show ?case by simp
next
  case (Cons md mds)
  let ?s1 = "snd (queueHandler md s)"
  note q = queueHandler_deferred[OF Cons.prems, of md]
  have "rateLimit_threshold \<le> requestCount ?s1" using Cons.prems q by simp
  note IH = Cons.IH[OF this]
  show ?case
    using IH q by (simp add: split_beta logger_info_def attempts_append)
qed

lemma submit_all_append:
  "submit_all (xs @ ys) s =
     (fst (submit_all xs s) @ fst (submit_all ys (snd (submit_all xs s))),
      snd (submit_all ys (snd (submit_all xs s))))"
  by (induction xs arbitrary: s) (simp_all add: split_beta)

lemma quiet_run:
  "processMessageDirectly (quiet_message frm) p =
     (Inr \<lparr>status = subscription_required, result_message = subscription_messages_expired\<rparr>,
      p\<lparr>trace := trace p @ [CheckSubscription frm, FindOrCreateUser frm, IncrementMessageCount frm,
                              SendWhatsAppMessage frm subscription_messages_expired]\<rparr>)"
  by (simp add: processMessageDirectly_def pipeline_try_def await_def promise_all_def resolve_def
      call_def Let_def quiet_message_def quiet_handlers_def)

lemma broken_run:
  "processMessageDirectly (broken_message frm) p =
     (Inl (Error ''billing unavailable''),
      p\<lparr>trace := trace p @ [CheckSubscription frm, FindOrCreateUser frm,
                              LogError ''Error in direct processing: billing unavailable'']\<rparr>)"
  by (simp add: processMessageDirectly_def pipeline_try_def await_def promise_all_def resolve_def
      call_def Let_def broken_message_def quiet_handlers_def logger_error_def)

lemmas queue_steps = backlog_def init_def exec_def interval_callback_def processDelayedMessages_def
  loop_test_def resume_def drain_finally_def Let_def logger_info_def logger_error_def
  quiet_run broken_run

text \<open>
  C4. \<open>handleMessage\<close> of the queue first increments the window counter. If the counter
  then does not exceed the threshold (50), the message is run through the pipeline
  inline and the pipeline's outcome is what the call returns (its rejection is
  rethrown); the buffer is left alone. Otherwise the message is appended at the end of
  the buffer and \<open>{delayed: true}\<close> is returned; no service is called. With 75 messages
  submitted in one window, the first 50 are run inline, in order, and the other 25 are
  answered \<open>{delayed: true}\<close> and stand in the buffer, in order.
\<close>

theorem queueHandler_admits_or_defers:
  "(requestCount s < rateLimit_threshold \<longrightarrow>
      fst (queueHandler md s)
        = map_sum id Direct (fst (processMessageDirectly md
                                    (logger_info ''Processing message directly.'' (st s))))
      \<and> wld (st (snd (queueHandler md s)))
        = wld (snd (processMessageDirectly md (logger_info ''Processing message directly.'' (st s))))
      \<and> delayedMessages (snd (queueHandler md s)) = delayedMessages s)
   \<and> (rateLimit_threshold \<le> requestCount s \<longrightarrow>
      queueHandler md s =
        (Inr Delayed,
         s\<lparr>requestCount := requestCount s + 1,
           st := logger_info (''High traffic detected ('' @ string_of_nat (requestCount s + 1)
                      @ '' req/s). Delaying message processing.'') (st s),
           delayedMessages := delayedMessages s @ [md]\<rparr>))
   \<and> requestCount (snd (queueHandler md s)) = requestCount s + 1
   \<and> (requestCount s = 0 \<and> length mds = 75 \<longrightarrow>
        take 50 (fst (submit_all mds s)) = fst (submit_all (take 50 mds) s)
      \<and> Inr Delayed \<notin> set (take 50 (fst (submit_all mds s)))
      \<and> attempts (trace (st (snd (submit_all mds s))))
          = attempts (trace (st s)) @ map from_id (take 50 mds)
      \<and> drop 50 (fst (submit_all mds s)) = replicate 25 (Inr Delayed)
      \<and> delayedMessages (snd (submit_all mds s)) = delayedMessages s @ drop 50 mds)"
proof (intro conjI impI)
  assume lt: "requestCount s < rateLimit_threshold"
  let ?p = "logger_info ''Processing message directly.'' (st s)"
  obtain r p where run: "processMessageDirectly md ?p = (r, p)"
    by (cases "processMessageDirectly md ?p")
  show "fst (queueHandler md s) = map_sum id Direct (fst (processMessageDirectly md ?p))"
    using queueHandler_inline[OF lt, of md] run by (cases r) simp_all
  show "wld (st (snd (queueHandler md s))) = wld (snd (processMessageDirectly md ?p))"
    using queueHandler_inline[OF lt, of md] run by (cases r) (simp_all add: logger_error_def)
  show "delayedMessages (snd (queueHandler md s)) = delayedMessages s"
    using queueHandler_inline_facts(2)[OF lt] .
next
  assume "rateLimit_threshold \<le> requestCount s"
  then show "queueHandler md s =
        (Inr Delayed,
         s\<lparr>requestCount := requestCount s + 1,
           st := logger_info (''High traffic detected ('' @ string_of_nat (requestCount s + 1)
                      @ '' req/s). Delaying message processing.'') (st s),
           delayedMessages := delayedMessages s @ [md]\<rparr>)"
    by (rule queueHandler_deferred)
next
  show "requestCount (snd (queueHandler md s)) = requestCount s + 1"
    by (rule queueHandler_fields)
next
  assume h: "requestCount s = 0 \<and> length mds = 75"
  let ?a = "take 50 mds" and ?b = "drop 50 mds"
  let ?s1 = "snd (submit_all ?a s)"
  have la: "length ?a = 50" and lb: "length ?b = 25" using h by simp_all
  have "requestCount s + length ?a \<le> rateLimit_threshold"
    using h la by (simp add: rateLimit_threshold_def)
  note A = submit_all_inline[OF this]
  have "rateLimit_threshold \<le> requestCount ?s1"
    using A h la by (simp add: rateLimit_threshold_def)
  note B = submit_all_deferred[OF this, of ?b]
  have split: "submit_all mds s =
     (fst (submit_all ?a s) @ fst (submit_all ?b ?s1), snd (submit_all ?b ?s1))"
    using submit_all_append[of ?a ?b s] by simp
  have len: "length (fst (submit_all ?a s)) = 50" using A la by simp
  show "take 50 (fst (submit_all mds s)) = fst (submit_all (take 50 mds) s)"
    using split len by simp
  show "Inr Delayed \<notin> set (take 50 (fst (submit_all mds s)))"
    using split len A by auto
  show "attempts (trace (st (snd (submit_all mds s))))
          = attempts (trace (st s)) @ map from_id (take 50 mds)"
    using split A B by simp
  show "drop 50 (fst (submit_all mds s)) = replicate 25 (Inr Delayed)"
    using split len B lb by simp
  show "delayedMessages (snd (submit_all mds s)) = delayedMessages s @ drop 50 mds"
    using split A B by simp
qed

theorem queueHandler_admits_or_defers_witness:
  "requestCount (init ()) < rateLimit_threshold
   \<and> fst (queueHandler (quiet_message ''31600000001'') (init ()))
       = Inr (Direct \<lparr>status = subscription_required, result_message = subscription_messages_expired\<rparr>)
   \<and> rateLimit_threshold \<le> requestCount ((init ())\<lparr>requestCount := 50\<rparr>)
   \<and> fst (queueHandler (quiet_message ''31600000001'') ((init ())\<lparr>requestCount := 50\<rparr>)) = Inr Delayed
   \<and> delayedMessages (snd (queueHandler (quiet_message ''31600000001'') ((init ())\<lparr>requestCount := 50\<rparr>)))
       = [quiet_message ''31600000001'']
   \<and> requestCount (init ()) = 0 \<and> length (replicate 75 (quiet_message ''31600000001'')) = 75
   \<and> attempts (trace (st (snd (submit_all (replicate 75 (quiet_message ''31600000001'')) (init ())))))
       = replicate 50 ''31600000001''
   \<and> drop 50 (fst (submit_all (replicate 75 (quiet_message ''31600000001'')) (init ())))
       = replicate 25 (Inr Delayed)
   \<and> delayedMessages (snd (submit_all (replicate 75 (quiet_message ''31600000001'')) (init ())))
       = replicate 25 (quiet_message ''31600000001'')"
proof -
  let ?md = "quiet_message ''31600000001''"
  let ?full = "(init ())\<lparr>requestCount := 50\<rparr> :: unit sys"
  have h1: "requestCount (init ()) < rateLimit_threshold"
    by (simp add: init_def rateLimit_threshold_def)
  have h2: "rateLimit_threshold \<le> requestCount ?full"
    by (simp add: rateLimit_threshold_def)
  have h3: "requestCount (init ()) = 0 \<and> length (replicate 75 ?md) = 75"
    by (simp add: init_def)
  have f: "from_id ?md = ''31600000001''" by (simp add: quiet_message_def)
  note T1 = queueHandler_admits_or_defers[where s="init ()" and md="?md" and mds="replicate 75 ?md"]
  note T2 = queueHandler_admits_or_defers[where s="?full" and md="?md" and mds="[]"]
  have a: "fst (queueHandler ?md (init ()))
       = Inr (Direct \<lparr>status = subscription_required, result_message = subscription_messages_expired\<rparr>)"
    using T1 h1 by (simp add: quiet_run)
  have b: "fst (queueHandler ?md ?full) = Inr Delayed"
      and c: "delayedMessages (snd (queueHandler ?md ?full)) = [?md]"
    using T2 h2 by (simp_all add: init_def)
  have d: "attempts (trace (st (snd (submit_all (replicate 75 ?md) (init ()))))) = replicate 50 ''31600000001''"
      and e: "drop 50 (fst (submit_all (replicate 75 ?md) (init ()))) = replicate 25 (Inr Delayed)"
      and g: "delayedMessages (snd (submit_all (replicate 75 ?md) (init ()))) = replicate 25 ?md"
    using T1 h3 f by (simp_all add: init_def)
  show ?thesis using h1 h2 h3 a b c d e g by simp
qed

section \<open>Drains of the buffer\<close>

lemma interval_callback_idle:
  assumes "drains s = []" "\<not> processingDelayed s"
  shows "interval_callback s =
           (case delayedMessages s of
              [] \<Rightarrow> s\<lparr>requestCount := 0\<rparr>
            | md # rest \<Rightarrow>
                s\<lparr>requestCount := 0, processingDelayed := True,
                  st := logger_info (''Processing '' @ string_of_nat (length (delayedMessages s))
                                       @ '' delayed messages'') (st s),
                  delayedMessages := rest, drains := [AwaitPipeline md]\<rparr>)"
  using assms
  by (simp add: interval_callback_def processDelayedMessages_def loop_test_def Let_def
      split: list.splits)

lemma interval_callback_busy:
  assumes "processingDelayed s"
  shows "interval_callback s = s\<lparr>requestCount := 0\<rparr>"
  using assms by (simp add: interval_callback_def Let_def)

lemma resume_single:
  assumes "drains s = [d]"
  shows "resume 0 s =
     (case d of
        AwaitPipeline md \<Rightarrow>
          (case processMessageDirectly md (st s) of
             (Inr r, p) \<Rightarrow> s\<lparr>st := p, drains := [AwaitPause]\<rparr>
           | (Inl e, p) \<Rightarrow>
               s\<lparr>st := logger_error (''Error processing delayed messages: '' @ err_message e) p,
                 processingDelayed := False, drains := []\<rparr>)
      | AwaitPause \<Rightarrow>
          (case delayedMessages s of
             [] \<Rightarrow> s\<lparr>processingDelayed := False, drains := []\<rparr>
           | md # rest \<Rightarrow> s\<lparr>delayedMessages := rest, drains := [AwaitPipeline md]\<rparr>))"
  using assms
  by (simp add: resume_def loop_test_def drain_finally_def split: drain.splits prod.splits sum.splits list.splits)

lemma resume_none: "length (drains s) \<le> k \<Longrightarrow> resume k s = s"
  by (simp add: resume_def)

lemma one_drain_cases:
  assumes "one_drain s"
  obtains (idle) "drains s = []" "\<not> processingDelayed s"
        | (busy) d where "drains s = [d]" "processingDelayed s"
proof (cases "drains s")
  case Nil
  then show ?thesis using assms idle by (simp add: one_drain_def)
next
  case (Cons d ds)
  then have "drains s = [d]" using assms by (simp add: one_drain_def)
  then show ?thesis using assms busy by (simp add: one_drain_def)
qed

lemma one_drain_step:
  assumes "one_drain s"
  shows "one_drain (qstep e s)"
proof (cases e)
  case (Submit md)
  then show ?thesis using assms by (simp add: one_drain_def queueHandler_fields)
next
  case Tick
  from assms show ?thesis
  proof (cases rule: one_drain_cases)
    case idle
    then show ?thesis using Tick
      by (simp add: interval_callback_idle one_drain_def split: list.splits)
  next
    case (busy d)
    then show ?thesis using Tick assms
      by (simp add: interval_callback_busy one_drain_def)
  qed
next
  case (Resume k)
  from assms show ?thesis
  proof (cases rule: one_drain_cases)
    case idle
    then show ?thesis using Resume assms by (simp add: resume_none)
  next
    case (busy d)
    show ?thesis
    proof (cases k)
      case 0
      then show ?thesis using Resume busy
        by (simp add: resume_single one_drain_def split: drain.splits prod.splits sum.splits list.splits)
    next
      case (Suc n)
      then show ?thesis using Resume busy assms by (simp add: resume_none)
    qed
  qed
qed

lemma exec_Cons: "exec (e # evs) s = exec evs (qstep e s)"
  by (simp add: exec_def)

lemma one_drain_exec: "one_drain s \<Longrightarrow> one_drain (exec evs s)"
proof (induction evs arbitrary: s)
  case Nil
  then show ?case by (simp add: exec_def)
next
  case (Cons e evs)
  then show ?case by (simp add: exec_Cons one_drain_step)
qed

text \<open>
  C5. The queue starts with no drain in flight. From such a state, whatever messages
  are submitted, whenever the timer fires and whenever a drain goes on, at most one
  invocation of \<open>processDelayedMessages\<close> is in flight, and \<open>processingDelayed\<close> is set
  exactly while there is one. A timer tick in a state where \<open>processingDelayed\<close> is set
  resets the window counter and does nothing else: it starts no drain and leaves the
  buffer as it is.
\<close>

theorem drains_never_overlap:
  assumes "drains s0 = [] \<and> \<not> processingDelayed s0"
  shows "drains (init w) = [] \<and> \<not> processingDelayed (init w)
       \<and> length (drains (exec evs s0)) \<le> 1
       \<and> (processingDelayed (exec evs s0) = (length (drains (exec evs s0)) = 1))
       \<and> (processingDelayed (exec evs s0) \<longrightarrow>
            qstep Tick (exec evs s0) = (exec evs s0)\<lparr>requestCount := 0\<rparr>)"
proof -
  have i: "drains (init w) = [] \<and> \<not> processingDelayed (init w)" by (simp add: init_def)
  have "one_drain s0" using assms by (simp add: one_drain_def)
  then have o: "one_drain (exec evs s0)" by (rule one_drain_exec)
  have "length (drains (exec evs s0)) = 1 \<longleftrightarrow> drains (exec evs s0) \<noteq> []"
    using o by (cases "drains (exec evs s0)") (auto simp: one_drain_def)
  then show ?thesis
    using i o by (auto simp: one_drain_def interval_callback_busy)
qed

theorem drains_never_overlap_witness:
  "drains backlog = [] \<and> \<not> processingDelayed backlog
   \<and> processingDelayed (exec [Tick] backlog)
   \<and> drains (exec [Tick] backlog) = [AwaitPipeline (broken_message ''31600000001'')]
   \<and> qstep Tick (exec [Tick] backlog) = (exec [Tick] backlog)\<lparr>requestCount := 0\<rparr>
   \<and> delayedMessages (qstep Tick (exec [Tick] backlog))
       = [quiet_message ''31600000002'', quiet_message ''31600000003'']"
proof -
  have idle: "drains backlog = [] \<and> \<not> processingDelayed backlog"
    by (simp add: backlog_def init_def)
  have busy: "processingDelayed (exec [Tick] backlog)"
    and d: "drains (exec [Tick] backlog) = [AwaitPipeline (broken_message ''31600000001'')]"
    and b: "delayedMessages (exec [Tick] backlog)
              = [quiet_message ''31600000002'', quiet_message ''31600000003'']"
    by (simp_all add: queue_steps)
  note T = drains_never_overlap[OF idle, of "()" "[Tick]"]
  have same: "qstep Tick (exec [Tick] backlog) = (exec [Tick] backlog)\<lparr>requestCount := 0\<rparr>"
    using T busy by blast
  have "delayedMessages (qstep Tick (exec [Tick] backlog))
       = [quiet_message ''31600000002'', quiet_message ''31600000003'']"
    unfolding same using b by simp
  then show ?thesis using idle busy d same by blast
qed

lemma run_drain_idle: "drains s = [] \<Longrightarrow> run_drain n s = s"
  by (cases n) simp_all

lemma calls_of_append: "calls_of (xs @ ys) = calls_of xs @ calls_of ys"
  by (simp add: calls_of_def)

lemma same_calls_refl: "same_calls p p"
  by (simp add: same_calls_def)

lemma same_calls_logger:
  "same_calls p q \<Longrightarrow> same_calls (logger_info m p) q"
  "same_calls p q \<Longrightarrow> same_calls (logger_error m p) q"
  by (simp_all add: same_calls_def logger_info_def logger_error_def calls_of_def)

lemma log_blind_resolve: "log_blind (resolve x)"
  by (simp add: log_blind_def resolve_def)

lemma log_blind_call: "log_blind (call ev h)"
  by (auto simp: log_blind_def call_def same_calls_def calls_of_append split: prod.splits)

lemma log_blind_await:
  fixes m :: "('a, 'w pstate) async" and f :: "'a \<Rightarrow> ('b, 'w pstate) async"
  assumes "log_blind m" "\<And>x. log_blind (f x)"
  shows "log_blind (await m f)"
  unfolding log_blind_def
proof (intro allI impI)
  fix p q :: "'w pstate" assume pq: "same_calls p q"
  from assms(1) pq have m: "fst (m p) = fst (m q)" "same_calls (snd (m p)) (snd (m q))"
    by (auto simp: log_blind_def)
  show "fst (await m f p) = fst (await m f q)
        \<and> same_calls (snd (await m f p)) (snd (await m f q))"
  proof (cases "fst (m p)")
    case (Inl e)
    then show ?thesis using m by (simp add: await_def split_beta)
  next
    case (Inr x)
    from assms(2)[of x] m(2)
    have "fst (f x (snd (m p))) = fst (f x (snd (m q)))
          \<and> same_calls (snd (f x (snd (m p)))) (snd (f x (snd (m q))))"
      by (auto simp: log_blind_def)
    then show ?thesis using Inr m(1) by (simp add: await_def split_beta)
  qed
qed

lemma log_blind_promise_all:
  fixes a :: "('a, 'w pstate) async" and b :: "('b, 'w pstate) async"
  assumes "log_blind a" "log_blind b"
  shows "log_blind (promise_all a b)"
  unfolding log_blind_def
proof (intro allI impI)
  fix p q :: "'w pstate" assume pq: "same_calls p q"
  from assms(1) pq have a: "fst (a p) = fst (a q)" "same_calls (snd (a p)) (snd (a q))"
    by (auto simp: log_blind_def)
  from assms(2) a(2)
  have b: "fst (b (snd (a p))) = fst (b (snd (a q)))"
          "same_calls (snd (b (snd (a p)))) (snd (b (snd (a q))))"
    by (auto simp: log_blind_def)
  show "fst (promise_all a b p) = fst (promise_all a b q)
        \<and> same_calls (snd (promise_all a b p)) (snd (promise_all a b q))"
    using a(1) b by (simp add: promise_all_def split_beta split: sum.splits)
qed

lemma log_blind_pipeline_try: "log_blind (pipeline_try md)"
  unfolding pipeline_try_def Let_def
  by (intro log_blind_await log_blind_promise_all log_blind_call)
     (auto intro!: log_blind_await log_blind_promise_all log_blind_call log_blind_resolve)

lemma processMessageDirectly_log_blind:
  assumes "same_calls p q"
  shows "fst (processMessageDirectly md p) = fst (processMessageDirectly md q)"
    and "same_calls (snd (processMessageDirectly md p)) (snd (processMessageDirectly md q))"
proof -
  from log_blind_pipeline_try[of md] assms
  have t: "fst (pipeline_try md p) = fst (pipeline_try md q)"
          "same_calls (snd (pipeline_try md p)) (snd (pipeline_try md q))"
    by (auto simp: log_blind_def)
  show "fst (processMessageDirectly md p) = fst (processMessageDirectly md q)"
    using t(1) by (simp add: processMessageDirectly_def split_beta split: sum.splits)
  show "same_calls (snd (processMessageDirectly md p)) (snd (processMessageDirectly md q))"
    using t by (cases "fst (pipeline_try md q)")
      (simp_all add: processMessageDirectly_def split_beta same_calls_def logger_error_def calls_of_def)
qed

lemma run_seq_Nil: "run_seq [] p = p"
  by (simp add: run_seq_def)

lemma run_seq_Cons: "run_seq (md # mds) p = run_seq mds (snd (processMessageDirectly md p))"
  by (simp add: run_seq_def)

lemma run_seq_append: "run_seq (xs @ ys) p = run_seq ys (run_seq xs p)"
  by (simp add: run_seq_def)

lemma attempts_calls_of: "attempts (calls_of evs) = attempts evs"
  by (induction evs rule: attempts.induct) (simp_all add: calls_of_def)

lemma attempts_run_seq:
  "attempts (trace (run_seq mds p)) = attempts (trace p) @ map from_id mds"
  by (induction mds arbitrary: p) (simp_all add: run_seq_Nil run_seq_Cons attempts_run)

lemma run_drain_effect:
  assumes "drains s = [d]"
      and "2 * length (delayedMessages s) + (case d of AwaitPipeline _ \<Rightarrow> 2 | AwaitPause \<Rightarrow> 1) \<le> n"
      and "same_calls (st s) q"
  shows "drains (run_drain n s) = [] \<and> \<not> processingDelayed (run_drain n s)
       \<and> (\<exists>k. delayedMessages (run_drain n s) = drop k (delayedMessages s)
              \<and> same_calls (st (run_drain n s))
                   (run_seq ((case d of AwaitPipeline md \<Rightarrow> [md] | AwaitPause \<Rightarrow> [])
                             @ take k (delayedMessages s)) q))"
  using assms
proof (induction n arbitrary: s d q)
  case 0
  then show ?case by (cases d) simp_all
next
  case (Suc n)
  have step: "run_drain (Suc n) s = run_drain n (resume 0 s)"
    using Suc.prems(1) by simp
  show ?case
  proof (cases d)
    case (AwaitPipeline md)
    obtain r p where run: "processMessageDirectly md (st s) = (r, p)"
      by (cases "processMessageDirectly md (st s)")
    let ?q1 = "snd (processMessageDirectly md q)"
    have pq: "same_calls p ?q1"
      using processMessageDirectly_log_blind(2)[OF Suc.prems(3), of md] run by simp
    show ?thesis
    proof (cases r)
      case (Inl e)
      let ?s1 = "s\<lparr>st := logger_error (''Error processing delayed messages: '' @ err_message e) p,
                    processingDelayed := False, drains := []\<rparr>"
      have r1: "resume 0 s = ?s1"
        using Suc.prems(1) AwaitPipeline run Inl by (simp add: resume_single)
      have fin: "run_drain (Suc n) s = ?s1"
        using step r1 by (simp add: run_drain_idle)
      have "same_calls (st ?s1) (run_seq ([md] @ take 0 (delayedMessages s)) q)"
        using same_calls_logger(2)[OF pq] by (simp add: run_seq_Cons run_seq_Nil)
      then show ?thesis
        unfolding fin AwaitPipeline by (intro conjI exI[of _ 0]) simp_all
    next
      case (Inr res)
      let ?s1 = "s\<lparr>st := p, drains := [AwaitPause]\<rparr>"
      have r1: "resume 0 s = ?s1"
        using Suc.prems(1) AwaitPipeline run Inr by (simp add: resume_single)
      have d1: "drains ?s1 = [AwaitPause]" by simp
      have f1: "2 * length (delayedMessages ?s1)
                  + (case AwaitPause of AwaitPipeline _ \<Rightarrow> 2 | AwaitPause \<Rightarrow> 1) \<le> n"
        using Suc.prems(2) AwaitPipeline by simp
      have q1: "same_calls (st ?s1) ?q1" using pq by simp
      from Suc.IH[OF d1 f1 q1] obtain k where
        k: "drains (run_drain n ?s1) = []" "\<not> processingDelayed (run_drain n ?s1)"
           "delayedMessages (run_drain n ?s1) = drop k (delayedMessages s)"
           "same_calls (st (run_drain n ?s1)) (run_seq (take k (delayedMessages s)) ?q1)"
        by auto
      have "same_calls (st (run_drain n ?s1)) (run_seq ([md] @ take k (delayedMessages s)) q)"
        using k(4) by (simp add: run_seq_Cons)
      then show ?thesis
        unfolding step r1 AwaitPipeline using k(1,2,3) by (intro conjI exI[of _ k]) simp_all
    qed
  next
    case AwaitPause
    show ?thesis
    proof (cases "delayedMessages s")
      case Nil
      let ?s1 = "s\<lparr>processingDelayed := False, drains := []\<rparr>"
      have r1: "resume 0 s = ?s1"
        using Suc.prems(1) AwaitPause Nil by (simp add: resume_single)
      have fin: "run_drain (Suc n) s = ?s1"
        using step r1 by (simp add: run_drain_idle)
      show ?thesis
        unfolding fin AwaitPause using Nil Suc.prems(3)
        by (intro conjI exI[of _ 0]) (simp_all add: run_seq_Nil)
    next
      case (Cons md rest)
      let ?s1 = "s\<lparr>delayedMessages := rest, drains := [AwaitPipeline md]\<rparr>"
      have r1: "resume 0 s = ?s1"
        using Suc.prems(1) AwaitPause Cons by (simp add: resume_single)
      have d1: "drains ?s1 = [AwaitPipeline md]" by simp
      have f1: "2 * length (delayedMessages ?s1)
                  + (case AwaitPipeline md of AwaitPipeline _ \<Rightarrow> 2 | AwaitPause \<Rightarrow> 1) \<le> n"
        using Suc.prems(2) AwaitPause Cons by simp
      have q1: "same_calls (st ?s1) q" using Suc.prems(3) by simp
      from Suc.IH[OF d1 f1 q1] obtain k where
        k: "drains (run_drain n ?s1) = []" "\<not> processingDelayed (run_drain n ?s1)"
           "delayedMessages (run_drain n ?s1) = drop k rest"
           "same_calls (st (run_drain n ?s1)) (run_seq ([md] @ take k rest) q)"
        by auto
      show ?thesis
        unfolding step r1 AwaitPause using k Cons
        by (intro conjI exI[of _ "Suc k"]) simp_all
    qed
  qed
qed

lemma window_effect:
  assumes "drains s = []" "\<not> processingDelayed s" "same_calls (st s) q"
  shows "drains (window s) = [] \<and> \<not> processingDelayed (window s)
       \<and> (\<exists>k. (delayedMessages s \<noteq> [] \<longrightarrow> 0 < k)
              \<and> delayedMessages (window s) = drop k (delayedMessages s)
              \<and> same_calls (st (window s)) (run_seq (take k (delayedMessages s)) q))"
proof (cases "delayedMessages s")
  case Nil
  then show ?thesis
    using assms by (simp add: window_def interval_callback_idle run_seq_Nil)
next
  case (Cons md rest)
  let ?t = "s\<lparr>requestCount := 0, processingDelayed := True,
                st := logger_info (''Processing '' @ string_of_nat (length (delayedMessages s))
                                       @ '' delayed messages'') (st s),
                delayedMessages := rest, drains := [AwaitPipeline md]\<rparr>"
  have t: "qstep Tick s = ?t"
    using assms(1,2) Cons by (simp add: interval_callback_idle)
  have d: "drains ?t = [AwaitPipeline md]" by simp
  have f: "2 * length (delayedMessages ?t)
             + (case AwaitPipeline md of AwaitPipeline _ \<Rightarrow> 2 | AwaitPause \<Rightarrow> 1)
           \<le> 2 * length (delayedMessages s)"
    using Cons by simp
  have q: "same_calls (st ?t) q" using same_calls_logger(1)[OF assms(3)] by simp
  define u where "u = run_drain (2 * length (delayedMessages s)) ?t"
  have R: "drains u = [] \<and> \<not> processingDelayed u
       \<and> (\<exists>k. delayedMessages u = drop k (delayedMessages ?t)
              \<and> same_calls (st u)
                   (run_seq ((case AwaitPipeline md of AwaitPipeline md \<Rightarrow> [md] | AwaitPause \<Rightarrow> [])
                             @ take k (delayedMessages ?t)) q))"
    unfolding u_def by (rule run_drain_effect[OF d f q])
  have dt: "delayedMessages ?t = rest" by simp
  from R obtain k where
    k: "drains u = []" "\<not> processingDelayed u" "delayedMessages u = drop k rest"
       "same_calls (st u) (run_seq ([md] @ take k rest) q)"
    unfolding dt by auto
  have w: "window s = u"
    using t by (simp add: window_def u_def)
  show ?thesis
    unfolding w using k Cons by (intro conjI exI[of _ "Suc k"]) simp_all
qed

lemma windows_effect:
  assumes "drains s = []" "\<not> processingDelayed s" "length (delayedMessages s) \<le> n"
      and "same_calls (st s) q"
  shows "drains ((window ^^ n) s) = [] \<and> \<not> processingDelayed ((window ^^ n) s)
       \<and> delayedMessages ((window ^^ n) s) = []
       \<and> same_calls (st ((window ^^ n) s)) (run_seq (delayedMessages s) q)"
  using assms
proof (induction n arbitrary: s q)
  case 0
  then show ?case by (simp add: run_seq_Nil)
next
  case (Suc n)
  from window_effect[OF Suc.prems(1,2,4)] obtain k where
    w: "drains (window s) = []" "\<not> processingDelayed (window s)"
       "delayedMessages s \<noteq> [] \<longrightarrow> 0 < k"
       "delayedMessages (window s) = drop k (delayedMessages s)"
       "same_calls (st (window s)) (run_seq (take k (delayedMessages s)) q)"
    by auto
  have len: "length (delayedMessages (window s)) \<le> n"
    using w(3,4) Suc.prems(3) by (cases "delayedMessages s") auto
  note IH = Suc.IH[OF w(1,2) len w(5)]
  have "run_seq (delayedMessages (window s)) (run_seq (take k (delayedMessages s)) q)
          = run_seq (delayedMessages s) q"
    unfolding w(4) by (simp flip: run_seq_append)
  then show ?case
    using IH by (simp add: funpow_swap1)
qed

text \<open>
  C6. When the pipeline run of a deferred entry fails, the drain logs the error and
  returns: the state of the services and the trace are those the run left, with the
  line of the drain added; the entry is gone, the entries behind it are still in the
  buffer, and \<open>processingDelayed\<close> is reset. From a state with no drain in flight, as
  many windows as there are deferred entries (the timer fires and the drain it starts
  runs until it returns) empty the buffer, and what they do to the services is what
  running the pipeline on every deferred entry, once each and in the order of the
  buffer, does: the same state of the services and the same calls, whichever of the
  runs fail.
\<close>

theorem failed_entry_does_not_block_the_rest:
  "(drains s = [] \<and> \<not> processingDelayed s \<longrightarrow>
      delayedMessages ((window ^^ length (delayedMessages s)) s) = []
      \<and> drains ((window ^^ length (delayedMessages s)) s) = []
      \<and> \<not> processingDelayed ((window ^^ length (delayedMessages s)) s)
      \<and> wld (st ((window ^^ length (delayedMessages s)) s))
          = wld (run_seq (delayedMessages s) (st s))
      \<and> calls_of (trace (st ((window ^^ length (delayedMessages s)) s)))
          = calls_of (trace (run_seq (delayedMessages s) (st s)))
      \<and> attempts (trace (st ((window ^^ length (delayedMessages s)) s)))
          = attempts (trace (st s)) @ map from_id (delayedMessages s))
   \<and> (drains t = [AwaitPipeline md] \<and> fst (processMessageDirectly md (st t)) = Inl e \<longrightarrow>
        delayedMessages (qstep (Resume 0) t) = delayedMessages t
        \<and> drains (qstep (Resume 0) t) = []
        \<and> \<not> processingDelayed (qstep (Resume 0) t)
        \<and> st (qstep (Resume 0) t)
            = logger_error (''Error processing delayed messages: '' @ err_message e)
                (snd (processMessageDirectly md (st t))))"
proof (intro conjI impI)
  assume idle: "drains s = [] \<and> \<not> processingDelayed s"
  let ?w = "(window ^^ length (delayedMessages s)) s"
  have W: "drains ?w = [] \<and> \<not> processingDelayed ?w \<and> delayedMessages ?w = []
       \<and> same_calls (st ?w) (run_seq (delayedMessages s) (st s))"
    using idle by (intro windows_effect same_calls_refl) simp_all
  show "delayedMessages ?w = []" and "drains ?w = []" and "\<not> processingDelayed ?w"
    using W by simp_all
  show w: "wld (st ?w) = wld (run_seq (delayedMessages s) (st s))"
    and c: "calls_of (trace (st ?w)) = calls_of (trace (run_seq (delayedMessages s) (st s)))"
    using W by (simp_all add: same_calls_def)
  have "attempts (trace (st ?w)) = attempts (calls_of (trace (st ?w)))"
    by (simp add: attempts_calls_of)
  also have "\<dots> = attempts (trace (run_seq (delayedMessages s) (st s)))"
    unfolding c by (simp add: attempts_calls_of)
  finally show "attempts (trace (st ?w)) = attempts (trace (st s)) @ map from_id (delayedMessages s)"
    by (simp add: attempts_run_seq)
next
  assume h: "drains t = [AwaitPipeline md] \<and> fst (processMessageDirectly md (st t)) = Inl e"
  obtain p where run: "processMessageDirectly md (st t) = (Inl e, p)"
    using h by (cases "processMessageDirectly md (st t)") auto
  have r: "qstep (Resume 0) t =
             t\<lparr>st := logger_error (''Error processing delayed messages: '' @ err_message e) p,
               processingDelayed := False, drains := []\<rparr>"
    using h run by (simp add: resume_single)
  show "delayedMessages (qstep (Resume 0) t) = delayedMessages t"
    and "drains (qstep (Resume 0) t) = []"
    and "\<not> processingDelayed (qstep (Resume 0) t)"
    and "st (qstep (Resume 0) t)
            = logger_error (''Error processing delayed messages: '' @ err_message e)
                (snd (processMessageDirectly md (st t)))"
    using r run by simp_all
qed

theorem failed_entry_does_not_block_the_rest_witness:
  "drains backlog = [] \<and> \<not> processingDelayed backlog
   \<and> length (delayedMessages backlog) = 3
   \<and> delayedMessages ((window ^^ 3) backlog) = []
   \<and> calls_of (trace (st ((window ^^ 3) backlog)))
       = [CheckSubscription ''31600000001'', FindOrCreateUser ''31600000001'',
          CheckSubscription ''31600000002'', FindOrCreateUser ''31600000002'',
          IncrementMessageCount ''31600000002'',
          SendWhatsAppMessage ''31600000002'' subscription_messages_expired,
          CheckSubscription ''31600000003'', FindOrCreateUser ''31600000003'',
          IncrementMessageCount ''31600000003'',
          SendWhatsAppMessage ''31600000003'' subscription_messages_expired]
   \<and> drains (qstep Tick backlog) = [AwaitPipeline (broken_message ''31600000001'')]
   \<and> fst (processMessageDirectly (broken_message ''31600000001'') (st (qstep Tick backlog)))
       = Inl (Error ''billing unavailable'')
   \<and> delayedMessages (qstep (Resume 0) (qstep Tick backlog))
       = [quiet_message ''31600000002'', quiet_message ''31600000003'']
   \<and> drains (qstep (Resume 0) (qstep Tick backlog)) = []
   \<and> \<not> processingDelayed (qstep (Resume 0) (qstep Tick backlog))"
proof -
  let ?t = "qstep Tick backlog"
  let ?md = "broken_message ''31600000001''"
  have idle: "drains backlog = [] \<and> \<not> processingDelayed backlog"
    by (simp add: backlog_def init_def)
  have len: "length (delayedMessages backlog) = 3" by (simp add: backlog_def)
  have seq: "calls_of (trace (run_seq (delayedMessages backlog) (st backlog)))
       = [CheckSubscription ''31600000001'', FindOrCreateUser ''31600000001'',
          CheckSubscription ''31600000002'', FindOrCreateUser ''31600000002'',
          IncrementMessageCount ''31600000002'',
          SendWhatsAppMessage ''31600000002'' subscription_messages_expired,
          CheckSubscription ''31600000003'', FindOrCreateUser ''31600000003'',
          IncrementMessageCount ''31600000003'',
          SendWhatsAppMessage ''31600000003'' subscription_messages_expired]"
    by (simp add: backlog_def init_def run_seq_def quiet_run broken_run calls_of_def)
  have d: "drains ?t = [AwaitPipeline ?md]"
    and b: "delayedMessages ?t = [quiet_message ''31600000002'', quiet_message ''31600000003'']"
    by (simp_all add: queue_steps)
  have fails: "fst (processMessageDirectly ?md (st ?t)) = Inl (Error ''billing unavailable'')"
    by (simp add: broken_run)
  note T = failed_entry_does_not_block_the_rest[where s=backlog and t="?t" and md="?md"
      and e="Error ''billing unavailable''"]
  have w: "delayedMessages ((window ^^ 3) backlog) = []"
    "calls_of (trace (st ((window ^^ 3) backlog)))
       = calls_of (trace (run_seq (delayedMessages backlog) (st backlog)))"
    using T idle len by simp_all
  have r: "delayedMessages (qstep (Resume 0) ?t) = [quiet_message ''31600000002'', quiet_message ''31600000003'']"
    "drains (qstep (Resume 0) ?t) = []" "\<not> processingDelayed (qstep (Resume 0) ?t)"
    using T d fails b by simp_all
  show ?thesis using idle len w seq d fails r by simp
qed

text \<open>
  C10. In every state reached from a state with no drain in flight: when a drain
  returns, \<open>processingDelayed\<close> is false and no drain is in flight, so the next timer
  tick that finds an entry in the buffer starts a new drain with that entry. A drain
  returns when the pipeline run it waits for fails (the buffer is left as it is), and
  when it finds the buffer empty after its pause.
\<close>

theorem drain_end_resets_flag:
  assumes "drains s0 = [] \<and> \<not> processingDelayed s0"
  shows "let s = exec evs s0; s' = qstep (Resume k) s in
     (length (drains s') < length (drains s) \<longrightarrow>
        \<not> processingDelayed s' \<and> drains s' = []
        \<and> (\<forall>md rest. delayedMessages s' = md # rest \<longrightarrow>
              processingDelayed (qstep Tick s')
              \<and> drains (qstep Tick s') = [AwaitPipeline md]
              \<and> delayedMessages (qstep Tick s') = rest))
     \<and> (\<forall>md e. k < length (drains s) \<and> drains s ! k = AwaitPipeline md
                \<and> fst (processMessageDirectly md (st s)) = Inl e \<longrightarrow>
           length (drains s') < length (drains s) \<and> delayedMessages s' = delayedMessages s)
     \<and> (k < length (drains s) \<and> drains s ! k = AwaitPause \<and> delayedMessages s = [] \<longrightarrow>
           length (drains s') < length (drains s))"
proof -
  define s where "s = exec evs s0"
  define s' where "s' = qstep (Resume k) s"
  have "one_drain s0" using assms by (simp add: one_drain_def)
  then have o: "one_drain s" unfolding s_def by (rule one_drain_exec)
  then have o': "one_drain s'" unfolding s'_def by (rule one_drain_step)
  have a: "\<not> processingDelayed s' \<and> drains s' = []
        \<and> (\<forall>md rest. delayedMessages s' = md # rest \<longrightarrow>
              processingDelayed (qstep Tick s')
              \<and> drains (qstep Tick s') = [AwaitPipeline md]
              \<and> delayedMessages (qstep Tick s') = rest)"
    if less: "length (drains s') < length (drains s)"
  proof -
    have "length (drains s) \<le> 1" using o by (simp add: one_drain_def)
    with less have e: "drains s' = []" by (cases "drains s'") auto
    with o' have f: "\<not> processingDelayed s'" by (simp add: one_drain_def)
    show ?thesis using e f by (simp add: interval_callback_idle)
  qed
  have b: "length (drains s') < length (drains s) \<and> delayedMessages s' = delayedMessages s"
    if h: "k < length (drains s) \<and> drains s ! k = AwaitPipeline md
           \<and> fst (processMessageDirectly md (st s)) = Inl e" for md e
  proof -
    from o h have k0: "k = 0" and d: "drains s = [AwaitPipeline md]"
      by (cases "drains s"; auto simp: one_drain_def)+
    obtain p where run: "processMessageDirectly md (st s) = (Inl e, p)"
      using h by (cases "processMessageDirectly md (st s)") auto
    show ?thesis
      unfolding s'_def using k0 d run by (simp add: resume_single)
  qed
  have c: "length (drains s') < length (drains s)"
    if h: "k < length (drains s) \<and> drains s ! k = AwaitPause \<and> delayedMessages s = []"
  proof -
    from o h have k0: "k = 0" and d: "drains s = [AwaitPause]"
      by (cases "drains s"; auto simp: one_drain_def)+
    show ?thesis
      unfolding s'_def using k0 d h by (simp add: resume_single)
  qed
  show ?thesis
    unfolding Let_def s_def[symmetric] s'_def[symmetric]
    using a b c by blast
qed

theorem drain_end_resets_flag_witness:
  "drains backlog = [] \<and> \<not> processingDelayed backlog
   \<and> drains (exec [Tick] backlog) = [AwaitPipeline (broken_message ''31600000001'')]
   \<and> fst (processMessageDirectly (broken_message ''31600000001'') (st (exec [Tick] backlog)))
       = Inl (Error ''billing unavailable'')
   \<and> length (drains (qstep (Resume 0) (exec [Tick] backlog))) < length (drains (exec [Tick] backlog))
   \<and> \<not> processingDelayed (qstep (Resume 0) (exec [Tick] backlog))
   \<and> delayedMessages (qstep (Resume 0) (exec [Tick] backlog))
       = [quiet_message ''31600000002'', quiet_message ''31600000003'']
   \<and> drains (qstep Tick (qstep (Resume 0) (exec [Tick] backlog)))
       = [AwaitPipeline (quiet_message ''31600000002'')]
   \<and> drains (exec [Tick, Resume 0, Tick, Resume 0, Resume 0, Resume 0] backlog) = [AwaitPause]
   \<and> delayedMessages (exec [Tick, Resume 0, Tick, Resume 0, Resume 0, Resume 0] backlog) = []
   \<and> \<not> processingDelayed
         (qstep (Resume 0) (exec [Tick, Resume 0, Tick, Resume 0, Resume 0, Resume 0] backlog))"
proof -
  let ?s = "exec [Tick] backlog"
  let ?md = "broken_message ''31600000001''"
  let ?s2 = "exec [Tick, Resume 0, Tick, Resume 0, Resume 0, Resume 0] backlog"
  have idle: "drains backlog = [] \<and> \<not> processingDelayed backlog"
    by (simp add: backlog_def init_def)
  have d: "drains ?s = [AwaitPipeline ?md]"
    and b: "delayedMessages ?s = [quiet_message ''31600000002'', quiet_message ''31600000003'']"
    by (simp_all add: queue_steps)
  have fails: "fst (processMessageDirectly ?md (st ?s)) = Inl (Error ''billing unavailable'')"
    by (simp add: broken_run)
  note T = drain_end_resets_flag[OF idle, of "[Tick]" 0, unfolded Let_def]
  have k: "0 < length (drains ?s) \<and> drains ?s ! 0 = AwaitPipeline ?md
           \<and> fst (processMessageDirectly ?md (st ?s)) = Inl (Error ''billing unavailable'')"
    using d fails by simp
  have less: "length (drains (qstep (Resume 0) ?s)) < length (drains ?s)"
    and same: "delayedMessages (qstep (Resume 0) ?s) = delayedMessages ?s"
    using T k by blast+
  have flag: "\<not> processingDelayed (qstep (Resume 0) ?s)"
    using T less by blast
  have buf: "delayedMessages (qstep (Resume 0) ?s)
       = [quiet_message ''31600000002'', quiet_message ''31600000003'']"
    using same b by simp
  have next_drain: "drains (qstep Tick (qstep (Resume 0) ?s)) = [AwaitPipeline (quiet_message ''31600000002'')]"
    using T less buf by blast
  have d2: "drains ?s2 = [AwaitPause]" and b2: "delayedMessages ?s2 = []"
    by (simp_all add: queue_steps)
  note T2 = drain_end_resets_flag[OF idle, of "[Tick, Resume 0, Tick, Resume 0, Resume 0, Resume 0]" 0,
      unfolded Let_def]
  have "length (drains (qstep (Resume 0) ?s2)) < length (drains ?s2)"
    using T2 d2 b2 by simp
  then have flag2: "\<not> processingDelayed (qstep (Resume 0) ?s2)"
    using T2 by blast
  show ?thesis
    using idle d fails less flag buf next_drain d2 b2 flag2 by blast
qed

end
